theory Spec2Isabelle
  imports Main "HOL-Library.Product_Lexorder"
begin

section \<open>Rows, errors and the extract phase\<close>

text \<open>
  The notebook \<^verbatim>\<open>project.ipynb\<close> is a sequence of cells. A CSV row, as
  \<^verbatim>\<open>csv.reader\<close> yields it and \<^verbatim>\<open>csv.writer\<close> takes it, is a list of strings.
  Every exception a cell can raise is a value of \<open>py_error\<close>; an uncaught exception ends
  the cell at that point.
\<close>

type_synonym row = "string list"

datatype py_error =
  StopIteration | IndexError | ValueError | NameError | AttributeError | InvalidRequest
  | NoHostAvailable

text \<open>\<^verbatim>\<open>row[i]\<close> for a literal index \<open>i \<ge> 0\<close>: IndexError past the end.\<close>

definition get :: "row \<Rightarrow> nat \<Rightarrow> py_error + string" where
  "get r i = (if i < length r then Inr (r ! i) else Inl IndexError)"

text \<open>The elements of a tuple display \<^verbatim>\<open>(row[i1], row[i2], ...)\<close>, evaluated left to right.\<close>

fun gets :: "row \<Rightarrow> nat list \<Rightarrow> py_error + row" where
  "gets r [] = Inr []"
| "gets r (i # js) =
     (case get r i of
        Inl e \<Rightarrow> Inl e
      | Inr x \<Rightarrow> (case gets r js of Inl e \<Rightarrow> Inl e | Inr xs \<Rightarrow> Inr (x # xs)))"

definition header_row :: row where
  "header_row = [''artist'', ''firstName'', ''gender'', ''itemInSession'', ''lastName'',
     ''length'', ''level'', ''location'', ''sessionId'', ''song'', ''userId'']"

definition kept_fields :: "nat list" where
  "kept_fields = [0, 2, 3, 4, 5, 6, 7, 8, 12, 13, 16]"

text \<open>
  The writer loop of the extract cell:
  \<^verbatim>\<open>
  for row in full_data_rows_list:
      if (row[0] == ''):
          continue
      writer.writerow((row[0], row[2], row[3], row[4], row[5], row[6], row[7], row[8],
                       row[12], row[13], row[16]))
  \<close>
  The second argument is the list of rows written to the file so far; the result is the
  exception that ended the loop, if any, and the rows written.
\<close>

fun write_data_rows :: "row list \<Rightarrow> row list \<Rightarrow> py_error option \<times> row list" where
  "write_data_rows [] out = (None, out)"
| "write_data_rows (r # rest) out =
     (case get r 0 of
        Inl e \<Rightarrow> (Some e, out)
      | Inr a \<Rightarrow>
          if a = '''' then write_data_rows rest out
          else (case gets r kept_fields of
                  Inl e \<Rightarrow> (Some e, out)
                | Inr t \<Rightarrow> write_data_rows rest (out @ [t])))"

text \<open>The header is written first, then the loop runs.\<close>

definition write_new_datafile :: "row list \<Rightarrow> py_error option \<times> row list" where
  "write_new_datafile full_data_rows_list = write_data_rows full_data_rows_list [header_row]"

section \<open>The environment: conversions and the store's validation\<close>

text \<open>
  The load cells call the Python builtins \<^verbatim>\<open>int\<close> and \<^verbatim>\<open>float\<close> on fields of the flat
  file and hand the values to the Cassandra driver. These are outside the
  repository; the model takes them as parameters, so every theorem holds for whatever
  they do:
  \<^item> \<open>py_int\<close>, \<open>py_float\<close>: the conversions, \<open>None\<close> where Python raises ValueError;
    \<open>'f\<close> is the type of Python floats;
  \<^item> \<open>accepts\<close>: whether the store accepts a statement with its values (types, ranges,
    key rules). It depends on the statement and its values, not on the rows stored;
  \<^item> \<open>cluster_up\<close>: whether a Cassandra node answers on 127.0.0.1 when the notebook
    connects.
\<close>

datatype 'f cql = CInt int | CText string | CDouble 'f

datatype 'f call = Call (stmt: string) (params: "'f cql list option")

record 'f env =
  py_int :: "string \<Rightarrow> int option"
  py_float :: "string \<Rightarrow> 'f option"
  accepts :: "'f call \<Rightarrow> bool"
  cluster_up :: bool

definition ebind :: "'e + 'a \<Rightarrow> ('a \<Rightarrow> 'e + 'b) \<Rightarrow> 'e + 'b" where
  "ebind m f = (case m of Inl e \<Rightarrow> Inl e | Inr x \<Rightarrow> f x)"

definition to_int :: "'f env \<Rightarrow> string \<Rightarrow> py_error + int" where
  "to_int env s = (case py_int env s of None \<Rightarrow> Inl ValueError | Some n \<Rightarrow> Inr n)"

definition to_float :: "'f env \<Rightarrow> string \<Rightarrow> py_error + 'f" where
  "to_float env s = (case py_float env s of None \<Rightarrow> Inl ValueError | Some x \<Rightarrow> Inr x)"

section \<open>The statements of the notebook\<close>

text \<open>
  The query strings, as the cells build them. A backslash at the end of a line inside
  a Python string literal joins the next line, whose leading blanks stay in the string.
\<close>

definition q_create_keyspace :: string where
  "q_create_keyspace =
     ''CREATE KEYSPACE IF NOT EXISTS sparkify         WITH REPLICATION = {'' @ [CHR 0x27] @
     ''class'' @ [CHR 0x27] @ '': '' @ [CHR 0x27] @ ''SimpleStrategy'' @ [CHR 0x27] @ '', '' @
     [CHR 0x27] @ ''replication_factor'' @ [CHR 0x27] @ '': 1}''"

definition q_create_artist_song_session :: string where
  "q_create_artist_song_session =
     ''CREATE TABLE IF NOT EXISTS artist_song_session '' @
     ''(session_id int, item_in_session int, artist text, song text, length double, '' @
     ''PRIMARY KEY (session_id, item_in_session))''"

definition q_insert_artist_song_session :: string where
  "q_insert_artist_song_session =
     ''INSERT INTO artist_song_session (session_id, item_in_session, artist, song, length)'' @
     '' VALUES (%s, %s, %s, %s, %s)''"

definition q_create_song_playlist_session :: string where
  "q_create_song_playlist_session =
     ''CREATE TABLE IF NOT EXISTS song_playlist_session '' @
     ''(user_id int, session_id int, item_in_session int, artist text, song text, '' @
     ''first_name text, last_name text, PRIMARY KEY ((user_id, session_id), item_in_session))''"

definition q_insert_song_playlist_session :: string where
  "q_insert_song_playlist_session =
     ''INSERT INTO song_playlist_session (user_id, session_id, item_in_session, artist, song, '' @
     ''                first_name, last_name)'' @
     '' VALUES (%s, %s, %s, %s, %s, %s, %s)''"

definition q_create_user_song :: string where
  "q_create_user_song =
     ''CREATE TABLE IF NOT EXISTS user_song '' @
     ''(song text, user_id int, first_name text, last_name text, PRIMARY KEY (song, user_id))''"

definition q_insert_user_song :: string where
  "q_insert_user_song =
     ''INSERT INTO user_song (song, user_id, first_name, last_name)'' @
     '' VALUES (%s, %s, %s, %s)''"

definition q_select_artist_song_session :: string where
  "q_select_artist_song_session =
     ''SELECT artist, song, length FROM artist_song_session '' @
     ''WHERE session_id=338 and item_in_session=4''"

definition q_select_song_playlist_session :: string where
  "q_select_song_playlist_session =
     ''SELECT item_in_session, artist, song, first_name, last_name FROM song_playlist_session '' @
     ''WHERE user_id=10 and session_id=182''"

definition q_select_user_song :: string where
  "q_select_user_song =
     ''SELECT first_name, last_name FROM user_song WHERE song='' @ [CHR 0x27] @
     ''All Hands Against His Own'' @ [CHR 0x27]"

text \<open>The README lists query 3 with the user id among the selected columns.\<close>

definition q_select_user_song_readme :: string where
  "q_select_user_song_readme =
     ''SELECT user_id, first_name, last_name FROM user_song WHERE song='' @ [CHR 0x27] @
     ''All Hands Against His Own'' @ [CHR 0x27]"

definition q_drop_table :: "string \<Rightarrow> string" where
  "q_drop_table t = ''drop table '' @ t"

text \<open>The first version of the notebook answers question 2 with the table \<open>question_2\<close>.\<close>

definition q_create_question_2 :: string where
  "q_create_question_2 =
     ''CREATE TABLE IF NOT EXISTS question_2 '' @
     ''(artist text, song text, session_id int, item_in_session int, user_id int, '' @
     ''first_name text, last_name text, '' @
     ''PRIMARY KEY (user_id, session_id, item_in_session))''"

definition q_insert_question_2 :: string where
  "q_insert_question_2 =
     ''INSERT INTO question_2 (artist, song, session_id, item_in_session, user_id, '' @
     ''first_name, last_name)'' @
     '' VALUES (%s, %s, %s, %s, %s, %s, %s)''"

definition q_select_question_2 :: string where
  "q_select_question_2 = ''SELECT * FROM question_2 WHERE user_id=10 and session_id=182''"

section \<open>The store\<close>

text \<open>
  The notebook reaches the tables only through the statements above, so their meaning
  is the meaning CQL gives them. A table is a map from partition key to the partition's
  rows; a partition keeps its rows in ascending order of the clustering key, one row per
  clustering key. An INSERT writes the row at its primary key, replacing the row that is
  already there (an INSERT in CQL is an upsert). A SELECT that fixes the partition key
  reads that partition in clustering order; a restriction on a clustering column keeps
  the rows that satisfy it.
\<close>

type_synonym ('pk, 'ck, 'v) table = "'pk \<Rightarrow> ('ck \<times> 'v) list option"

fun upsert :: "'ck::linorder \<Rightarrow> 'v \<Rightarrow> ('ck \<times> 'v) list \<Rightarrow> ('ck \<times> 'v) list" where
  "upsert k v [] = [(k, v)]"
| "upsert k v ((k', v') # rest) =
     (if k < k' then (k, v) # (k', v') # rest
      else if k = k' then (k, v) # rest
      else (k', v') # upsert k v rest)"

definition partition_of :: "('pk, 'ck, 'v) table \<Rightarrow> 'pk \<Rightarrow> ('ck \<times> 'v) list" where
  "partition_of t pk = (case t pk of None \<Rightarrow> [] | Some p \<Rightarrow> p)"

definition put_row ::
  "'pk \<Rightarrow> 'ck::linorder \<Rightarrow> 'v \<Rightarrow> ('pk, 'ck, 'v) table \<Rightarrow> ('pk, 'ck, 'v) table" where
  "put_row pk ck v t = t(pk \<mapsto> upsert ck v (partition_of t pk))"

text \<open>
  The four tables, keyed as their CREATE TABLE statements say:
  \<^item> \<open>artist_song_session\<close>: partition key \<open>session_id\<close>, clustering key
    \<open>item_in_session\<close>, then \<open>artist\<close>, \<open>song\<close>, \<open>length\<close>;
  \<^item> \<open>song_playlist_session\<close>: partition key \<open>(user_id, session_id)\<close>, clustering key
    \<open>item_in_session\<close>, then \<open>artist\<close>, \<open>song\<close>, \<open>first_name\<close>, \<open>last_name\<close>;
  \<^item> \<open>user_song\<close>: partition key \<open>song\<close>, clustering key \<open>user_id\<close>, then \<open>first_name\<close>,
    \<open>last_name\<close>;
  \<^item> \<open>question_2\<close>: partition key \<open>user_id\<close>, clustering key
    \<open>(session_id, item_in_session)\<close> in lexicographic order, then \<open>artist\<close>, \<open>song\<close>,
    \<open>first_name\<close>, \<open>last_name\<close>.
\<close>

record 'f db =
  artist_song_session :: "(int, int, string \<times> string \<times> 'f) table"
  song_playlist_session :: "(int \<times> int, int, string \<times> string \<times> string \<times> string) table"
  user_song :: "(string, int, string \<times> string) table"
  question_2 :: "(int, int \<times> int, string \<times> string \<times> string \<times> string) table"

definition empty_db :: "'f db" where
  "empty_db = \<lparr>artist_song_session = Map.empty, song_playlist_session = Map.empty,
     user_song = Map.empty, question_2 = Map.empty\<rparr>"

text \<open>The INSERT statements: the values bound, in the order of the column list.\<close>

fun insert_artist_song_session :: "'f cql list \<Rightarrow> 'f db \<Rightarrow> py_error + 'f db" where
  "insert_artist_song_session [CInt sid, CInt item, CText a, CText s, CDouble l] d =
     Inr (d\<lparr>artist_song_session := put_row sid item (a, s, l) (artist_song_session d)\<rparr>)"
| "insert_artist_song_session _ d = Inl InvalidRequest"

fun insert_song_playlist_session :: "'f cql list \<Rightarrow> 'f db \<Rightarrow> py_error + 'f db" where
  "insert_song_playlist_session
     [CInt uid, CInt sid, CInt item, CText a, CText s, CText fname, CText lname] d =
     Inr (d\<lparr>song_playlist_session :=
            put_row (uid, sid) item (a, s, fname, lname) (song_playlist_session d)\<rparr>)"
| "insert_song_playlist_session _ d = Inl InvalidRequest"

fun insert_user_song :: "'f cql list \<Rightarrow> 'f db \<Rightarrow> py_error + 'f db" where
  "insert_user_song [CText s, CInt uid, CText fname, CText lname] d =
     Inr (d\<lparr>user_song := put_row s uid (fname, lname) (user_song d)\<rparr>)"
| "insert_user_song _ d = Inl InvalidRequest"

fun insert_question_2 :: "'f cql list \<Rightarrow> 'f db \<Rightarrow> py_error + 'f db" where
  "insert_question_2
     [CText a, CText s, CInt sid, CInt item, CInt uid, CText fname, CText lname] d =
     Inr (d\<lparr>question_2 := put_row uid (sid, item) (a, s, fname, lname) (question_2 d)\<rparr>)"
| "insert_question_2 _ d = Inl InvalidRequest"

text \<open>
  A result row is what the driver returns: the selected columns by name (a Python
  named tuple). \<^verbatim>\<open>SELECT *\<close> lists the key columns first, then the others by name.
\<close>

type_synonym 'f result_row = "(string \<times> 'f cql) list"

definition select_artist_song_session :: "'f db \<Rightarrow> 'f result_row list" where
  "select_artist_song_session d =
     map (\<lambda>(item, a, s, l). [(''artist'', CText a), (''song'', CText s), (''length'', CDouble l)])
       (filter (\<lambda>(item, v). item = 4) (partition_of (artist_song_session d) 338))"

definition select_song_playlist_session :: "'f db \<Rightarrow> 'f result_row list" where
  "select_song_playlist_session d =
     map (\<lambda>(item, a, s, fname, lname).
            [(''item_in_session'', CInt item), (''artist'', CText a), (''song'', CText s),
             (''first_name'', CText fname), (''last_name'', CText lname)])
       (partition_of (song_playlist_session d) (10, 182))"

definition select_user_song :: "'f db \<Rightarrow> 'f result_row list" where
  "select_user_song d =
     map (\<lambda>(uid, fname, lname). [(''first_name'', CText fname), (''last_name'', CText lname)])
       (partition_of (user_song d) ''All Hands Against His Own'')"

definition select_user_song_readme :: "'f db \<Rightarrow> 'f result_row list" where
  "select_user_song_readme d =
     map (\<lambda>(uid, fname, lname).
            [(''user_id'', CInt uid), (''first_name'', CText fname), (''last_name'', CText lname)])
       (partition_of (user_song d) ''All Hands Against His Own'')"

definition select_question_2 :: "'f db \<Rightarrow> 'f result_row list" where
  "select_question_2 d =
     map (\<lambda>((sid, item), a, s, fname, lname).
            [(''user_id'', CInt 10), (''session_id'', CInt sid), (''item_in_session'', CInt item),
             (''artist'', CText a), (''first_name'', CText fname), (''last_name'', CText lname),
             (''song'', CText s)])
       (filter (\<lambda>((sid, item), v). sid = 182) (partition_of (question_2 d) 10))"

text \<open>
  The statement a text stands for. The definition statements (CREATE KEYSPACE, CREATE
  TABLE IF NOT EXISTS) leave the rows of the tables as they are; DROP TABLE removes the
  rows of its table. The tables are taken to exist while the load and query cells run:
  each load cell comes after its CREATE TABLE cell.
\<close>

datatype stmt_kind =
  InsertArtistSongSession | InsertSongPlaylistSession | InsertUserSong | InsertQuestion2
  | SelectArtistSongSession | SelectSongPlaylistSession | SelectUserSong
  | SelectUserSongReadme | SelectQuestion2
  | DropArtistSongSession | DropSongPlaylistSession | DropUserSong
  | Definition

definition classify :: "string \<Rightarrow> stmt_kind" where
  "classify q =
    (if q = q_insert_artist_song_session then InsertArtistSongSession
     else if q = q_insert_song_playlist_session then InsertSongPlaylistSession
     else if q = q_insert_user_song then InsertUserSong
     else if q = q_insert_question_2 then InsertQuestion2
     else if q = q_select_artist_song_session then SelectArtistSongSession
     else if q = q_select_song_playlist_session then SelectSongPlaylistSession
     else if q = q_select_user_song then SelectUserSong
     else if q = q_select_user_song_readme then SelectUserSongReadme
     else if q = q_select_question_2 then SelectQuestion2
     else if q = q_drop_table ''artist_song_session'' then DropArtistSongSession
     else if q = q_drop_table ''song_playlist_session'' then DropSongPlaylistSession
     else if q = q_drop_table ''user_song'' then DropUserSong
     else Definition)"

definition insert_result :: "py_error + 'f db \<Rightarrow> py_error + 'f result_row list \<times> 'f db" where
  "insert_result r = (case r of Inl e \<Rightarrow> Inl e | Inr d \<Rightarrow> Inr ([], d))"

definition bound :: "'f cql list option \<Rightarrow> 'f cql list" where
  "bound ps = (case ps of None \<Rightarrow> [] | Some vs \<Rightarrow> vs)"

definition run_stmt :: "'f call \<Rightarrow> 'f db \<Rightarrow> py_error + 'f result_row list \<times> 'f db" where
  "run_stmt c d =
    (case classify (stmt c) of
       InsertArtistSongSession \<Rightarrow> insert_result (insert_artist_song_session (bound (params c)) d)
     | InsertSongPlaylistSession \<Rightarrow>
         insert_result (insert_song_playlist_session (bound (params c)) d)
     | InsertUserSong \<Rightarrow> insert_result (insert_user_song (bound (params c)) d)
     | InsertQuestion2 \<Rightarrow> insert_result (insert_question_2 (bound (params c)) d)
     | SelectArtistSongSession \<Rightarrow> Inr (select_artist_song_session d, d)
     | SelectSongPlaylistSession \<Rightarrow> Inr (select_song_playlist_session d, d)
     | SelectUserSong \<Rightarrow> Inr (select_user_song d, d)
     | SelectUserSongReadme \<Rightarrow> Inr (select_user_song_readme d, d)
     | SelectQuestion2 \<Rightarrow> Inr (select_question_2 d, d)
     | DropArtistSongSession \<Rightarrow> Inr ([], d\<lparr>artist_song_session := Map.empty\<rparr>)
     | DropSongPlaylistSession \<Rightarrow> Inr ([], d\<lparr>song_playlist_session := Map.empty\<rparr>)
     | DropUserSong \<Rightarrow> Inr ([], d\<lparr>user_song := Map.empty\<rparr>)
     | Definition \<Rightarrow> Inr ([], d))"


section \<open>The session: executing statements\<close>

text \<open>
  What a run does to the outside is a trace of events: files opened and closed, the
  cluster connection, and every \<^verbatim>\<open>session.execute\<close> call with its statement text and,
  when the call passes one, its tuple of values. The world is the store, the trace so
  far, and the notebook's variable \<^verbatim>\<open>rows\<close> (unbound until a query cell assigns it).
\<close>

datatype 'f event =
  FileOpen string | FileClose string
  | ClusterConnect | SetKeyspace string | Execute "'f call"
  | SessionShutdown | ClusterShutdown

record 'f world =
  db :: "'f db"
  trace :: "'f event list"
  rows_var :: "'f result_row list option"

definition emit :: "'f event \<Rightarrow> 'f world \<Rightarrow> 'f world" where
  "emit e w = w\<lparr>trace := trace w @ [e]\<rparr>"

text \<open>
  \<^verbatim>\<open>session.execute(query, parameters)\<close>: the call is made; the store refuses it
  (the driver raises) or runs it.
\<close>

definition execute ::
  "'f env \<Rightarrow> 'f call \<Rightarrow> 'f world \<Rightarrow> (py_error + 'f result_row list) \<times> 'f world" where
  "execute env c w =
    (let w1 = emit (Execute c) w in
     if \<not> accepts env c then (Inl InvalidRequest, w1)
     else (case run_stmt c (db w1) of
             Inl e \<Rightarrow> (Inl e, w1)
           | Inr (res, d) \<Rightarrow> (Inr res, w1\<lparr>db := d\<rparr>)))"

section \<open>The load cells\<close>

text \<open>
  The tuple each insert loop binds, its elements evaluated left to right:
  \<^verbatim>\<open>(int(line[8]), int(line[3]), line[0], line[9], float(line[5]))\<close>,
  \<^verbatim>\<open>(int(line[10]), int(line[8]), int(line[3]), line[0], line[9], line[1], line[4])\<close>,
  \<^verbatim>\<open>(line[9], int(line[10]), line[1], line[4])\<close>, and for \<open>question_2\<close>
  \<^verbatim>\<open>(line[0], line[9], int(line[8]), int(line[3]), int(line[10]), line[1], line[4])\<close>.
\<close>

definition artist_song_session_args :: "'f env \<Rightarrow> row \<Rightarrow> py_error + 'f cql list" where
  "artist_song_session_args env line =
     ebind (ebind (get line 8) (to_int env)) (\<lambda>sid.
     ebind (ebind (get line 3) (to_int env)) (\<lambda>item.
     ebind (get line 0) (\<lambda>a.
     ebind (get line 9) (\<lambda>s.
     ebind (ebind (get line 5) (to_float env)) (\<lambda>l.
     Inr [CInt sid, CInt item, CText a, CText s, CDouble l])))))"

definition song_playlist_session_args :: "'f env \<Rightarrow> row \<Rightarrow> py_error + 'f cql list" where
  "song_playlist_session_args env line =
     ebind (ebind (get line 10) (to_int env)) (\<lambda>uid.
     ebind (ebind (get line 8) (to_int env)) (\<lambda>sid.
     ebind (ebind (get line 3) (to_int env)) (\<lambda>item.
     ebind (get line 0) (\<lambda>a.
     ebind (get line 9) (\<lambda>s.
     ebind (get line 1) (\<lambda>fname.
     ebind (get line 4) (\<lambda>lname.
     Inr [CInt uid, CInt sid, CInt item, CText a, CText s, CText fname, CText lname])))))))"

definition user_song_args :: "'f env \<Rightarrow> row \<Rightarrow> py_error + 'f cql list" where
  "user_song_args env line =
     ebind (get line 9) (\<lambda>s.
     ebind (ebind (get line 10) (to_int env)) (\<lambda>uid.
     ebind (get line 1) (\<lambda>fname.
     ebind (get line 4) (\<lambda>lname.
     Inr [CText s, CInt uid, CText fname, CText lname]))))"

definition question_2_args :: "'f env \<Rightarrow> row \<Rightarrow> py_error + 'f cql list" where
  "question_2_args env line =
     ebind (get line 0) (\<lambda>a.
     ebind (get line 9) (\<lambda>s.
     ebind (ebind (get line 8) (to_int env)) (\<lambda>sid.
     ebind (ebind (get line 3) (to_int env)) (\<lambda>item.
     ebind (ebind (get line 10) (to_int env)) (\<lambda>uid.
     ebind (get line 1) (\<lambda>fname.
     ebind (get line 4) (\<lambda>lname.
     Inr [CText a, CText s, CInt sid, CInt item, CInt uid, CText fname, CText lname])))))))"

text \<open>
  The body of a load cell:
  \<^verbatim>\<open>
  for line in csvreader:
      query = "INSERT INTO ..."
      query = query + " VALUES (%s, ...)"
      session.execute(query, (...))
  \<close>
  Nothing catches an exception here: the first one ends the loop.
\<close>

fun insert_loop ::
  "'f env \<Rightarrow> string \<Rightarrow> ('f env \<Rightarrow> row \<Rightarrow> py_error + 'f cql list) \<Rightarrow> row list \<Rightarrow> 'f world
     \<Rightarrow> py_error option \<times> 'f world" where
  "insert_loop env q args [] w = (None, w)"
| "insert_loop env q args (line # rest) w =
     (case args env line of
        Inl e \<Rightarrow> (Some e, w)
      | Inr vs \<Rightarrow>
          (case execute env (Call q (Some vs)) w of
             (Inl e, w') \<Rightarrow> (Some e, w')
           | (Inr res, w') \<Rightarrow> insert_loop env q args rest w'))"

definition new_datafile :: string where
  "new_datafile = ''event_datafile_new.csv''"

text \<open>
  \<^verbatim>\<open>
  with open(new_datafile, encoding = 'utf8') as f:
      csvreader = csv.reader(f)
      next(csvreader) # skip header
      for line in csvreader: ...
  \<close>
  \<open>file\<close> is the list of rows \<^verbatim>\<open>csv.reader\<close> yields for the flat file. \<^verbatim>\<open>next\<close> on a
  file without rows raises StopIteration; the \<^verbatim>\<open>with\<close> block closes the file on every
  way out.
\<close>

definition load_table ::
  "'f env \<Rightarrow> string \<Rightarrow> ('f env \<Rightarrow> row \<Rightarrow> py_error + 'f cql list) \<Rightarrow> row list \<Rightarrow> 'f world
     \<Rightarrow> py_error option \<times> 'f world" where
  "load_table env q args file w =
    (let w1 = emit (FileOpen new_datafile) w in
     case file of
       [] \<Rightarrow> (Some StopIteration, emit (FileClose new_datafile) w1)
     | header # lines \<Rightarrow>
         (case insert_loop env q args lines w1 of
            (r, w2) \<Rightarrow> (r, emit (FileClose new_datafile) w2)))"

definition load_artist_song_session ::
  "'f env \<Rightarrow> row list \<Rightarrow> 'f world \<Rightarrow> py_error option \<times> 'f world" where
  "load_artist_song_session env =
     load_table env q_insert_artist_song_session artist_song_session_args"

definition load_song_playlist_session ::
  "'f env \<Rightarrow> row list \<Rightarrow> 'f world \<Rightarrow> py_error option \<times> 'f world" where
  "load_song_playlist_session env =
     load_table env q_insert_song_playlist_session song_playlist_session_args"

definition load_user_song ::
  "'f env \<Rightarrow> row list \<Rightarrow> 'f world \<Rightarrow> py_error option \<times> 'f world" where
  "load_user_song env = load_table env q_insert_user_song user_song_args"

definition load_question_2 ::
  "'f env \<Rightarrow> row list \<Rightarrow> 'f world \<Rightarrow> py_error option \<times> 'f world" where
  "load_question_2 env = load_table env q_insert_question_2 question_2_args"

section \<open>Cells in sequence\<close>

text \<open>
  A cell takes the world and returns the exception it raised, if any, and the world it
  leaves. Running the notebook from top to bottom stops at the first cell that raises.
\<close>

type_synonym 'f cell = "'f world \<Rightarrow> py_error option \<times> 'f world"

fun run_cells :: "'f cell list \<Rightarrow> 'f cell" where
  "run_cells [] w = (None, w)"
| "run_cells (c # cs) w =
     (case c w of (Some e, w') \<Rightarrow> (Some e, w') | (None, w') \<Rightarrow> run_cells cs w')"

text \<open>
  \<^verbatim>\<open>
  try:
      session.execute(query)
  except Exception as e:
      print(e)
  \<close>
  The cells that create the keyspace and the tables; the call passes no values.
\<close>

definition definition_cell :: "'f env \<Rightarrow> string \<Rightarrow> 'f cell" where
  "definition_cell env q w = (None, snd (execute env (Call q None) w))"

text \<open>The three insert loops, one after the other.\<close>

definition load_phase :: "'f env \<Rightarrow> row list \<Rightarrow> 'f cell" where
  "load_phase env file =
     run_cells [load_artist_song_session env file, load_song_playlist_session env file,
                load_user_song env file]"

text \<open>The transform phase: each table is created, then loaded.\<close>

definition transform_phase :: "'f env \<Rightarrow> row list \<Rightarrow> 'f cell" where
  "transform_phase env file =
     run_cells [definition_cell env q_create_artist_song_session,
                load_artist_song_session env file,
                definition_cell env q_create_song_playlist_session,
                load_song_playlist_session env file,
                definition_cell env q_create_user_song,
                load_user_song env file]"

section \<open>The query cells\<close>

text \<open>\<^verbatim>\<open>row.name\<close> on a result row: AttributeError when the row has no such column.\<close>

definition attr :: "'f result_row \<Rightarrow> string \<Rightarrow> py_error + 'f cql" where
  "attr r name = (case map_of r name of None \<Rightarrow> Inl AttributeError | Some v \<Rightarrow> Inr v)"

fun attrs :: "'f result_row \<Rightarrow> string list \<Rightarrow> py_error + 'f cql list" where
  "attrs r [] = Inr []"
| "attrs r (n # ns) =
     (case attr r n of
        Inl e \<Rightarrow> Inl e
      | Inr v \<Rightarrow> (case attrs r ns of Inl e \<Rightarrow> Inl e | Inr vs \<Rightarrow> Inr (v # vs)))"

text \<open>
  \<^verbatim>\<open>for row in rows: data.add_row([row.artist, row.song, ...])\<close>: the table printed,
  one list of values per result row.
\<close>

fun add_rows ::
  "string list \<Rightarrow> 'f result_row list \<Rightarrow> 'f cql list list \<Rightarrow> py_error option \<times> 'f cql list list"
  where
  "add_rows names [] data = (None, data)"
| "add_rows names (r # rest) data =
     (case attrs r names of
        Inl e \<Rightarrow> (Some e, data)
      | Inr vs \<Rightarrow> add_rows names rest (data @ [vs]))"

text \<open>
  A query cell:
  \<^verbatim>\<open>
  query = "SELECT ..."
  try:
      rows = session.execute(query)
  except Exception as e:
      print(e)
  data = PrettyTable()
  for row in rows:
      data.add_row([...])
  print(data)
  \<close>
  When the call raises, \<^verbatim>\<open>rows\<close> keeps what an earlier cell left in it, and is
  unbound (NameError) when no cell has assigned it. What the driver returns is a result
  set that yields its rows once: after a loop has read it to the end nothing is left in
  it, so a later cell whose call raises adds no row to its table and goes on.
\<close>

definition query_cell :: "'f env \<Rightarrow> string \<Rightarrow> string list \<Rightarrow> 'f cell" where
  "query_cell env q names w =
    (case execute env (Call q None) w of
       (r, w1) \<Rightarrow>
         (let w2 = (case r of Inl e \<Rightarrow> w1 | Inr res \<Rightarrow> w1\<lparr>rows_var := Some res\<rparr>) in
          case rows_var w2 of
            None \<Rightarrow> (Some NameError, w2)
          | Some rows \<Rightarrow>
              (case add_rows names rows [] of
                 (Some e, data) \<Rightarrow> (Some e, w2)
               | (None, data) \<Rightarrow> (None, w2\<lparr>rows_var := Some []\<rparr>))))"

definition query_1 :: "'f env \<Rightarrow> 'f cell" where
  "query_1 env = query_cell env q_select_artist_song_session [''artist'', ''song'', ''length'']"

definition query_2_columns :: "string list" where
  "query_2_columns = [''artist'', ''song'', ''item_in_session'', ''first_name'', ''last_name'']"

definition query_2 :: "'f env \<Rightarrow> 'f cell" where
  "query_2 env = query_cell env q_select_song_playlist_session query_2_columns"

definition query_3 :: "'f env \<Rightarrow> 'f cell" where
  "query_3 env = query_cell env q_select_user_song [''first_name'', ''last_name'']"

definition query_phase :: "'f env \<Rightarrow> 'f cell" where
  "query_phase env = run_cells [query_1 env, query_2 env, query_3 env]"

text \<open>
  The first version prints the same five attributes of each row of its
  \<^verbatim>\<open>SELECT * FROM question_2\<close>.
\<close>

definition query_question_2 :: "'f env \<Rightarrow> 'f cell" where
  "query_question_2 env = query_cell env q_select_question_2 query_2_columns"

text \<open>The table a query prints for the rows it got.\<close>

definition printed :: "string list \<Rightarrow> 'f result_row list \<Rightarrow> py_error option \<times> 'f cql list list" where
  "printed names rows = add_rows names rows []"


section \<open>The whole notebook\<close>

text \<open>
  The read loop of the extract cell. Each entry of \<open>file_path_list\<close> is given with the
  rows \<^verbatim>\<open>csv.reader\<close> yields for it:
  \<^verbatim>\<open>
  for f in file_path_list:
      with open(f, 'r', encoding = 'utf8', newline='') as csvfile:
          csvreader = csv.reader(csvfile)
          next(csvreader)
          for line in csvreader:
              full_data_rows_list.append(line)
  \<close>
\<close>

fun read_files ::
  "(string \<times> row list) list \<Rightarrow> row list \<Rightarrow> 'f world \<Rightarrow> (py_error + row list) \<times> 'f world" where
  "read_files [] full_data_rows_list w = (Inr full_data_rows_list, w)"
| "read_files ((f, content) # fs) full_data_rows_list w =
     (let w1 = emit (FileOpen f) w in
      case content of
        [] \<Rightarrow> (Inl StopIteration, emit (FileClose f) w1)
      | header # lines \<Rightarrow> read_files fs (full_data_rows_list @ lines) (emit (FileClose f) w1))"

definition extract_cell :: "(string \<times> row list) list \<Rightarrow> 'f cell" where
  "extract_cell file_path_list w =
    (case read_files file_path_list [] w of
       (Inl e, w1) \<Rightarrow> (Some e, w1)
     | (Inr full_data_rows_list, w1) \<Rightarrow>
         (let w2 = emit (FileOpen new_datafile) w1 in
          case write_new_datafile full_data_rows_list of
            (r, written) \<Rightarrow> (r, emit (FileClose new_datafile) w2)))"

text \<open>\<^verbatim>\<open>with open(new_datafile, 'r', encoding = 'utf8') as f: print(sum(1 for line in f))\<close>\<close>

definition count_cell :: "'f cell" where
  "count_cell w = (None, emit (FileClose new_datafile) (emit (FileOpen new_datafile) w))"

text \<open>
  \<^verbatim>\<open>cluster = Cluster(); session = cluster.connect()\<close>: the driver raises
  NoHostAvailable when no node answers, and then there is no connection and no session.
\<close>

definition connect_cell :: "'f env \<Rightarrow> 'f cell" where
  "connect_cell env w =
     (if cluster_up env then (None, emit ClusterConnect w) else (Some NoHostAvailable, w))"

definition set_keyspace_cell :: "'f cell" where
  "set_keyspace_cell w = (None, emit (SetKeyspace ''sparkify'') w)"

text \<open>
  \<^verbatim>\<open>
  for table in tables:
      query = "drop table " + table
      try:
          session.execute(query)
      except Exception as e:
          print(e)
  \<close>
\<close>

fun drop_tables :: "'f env \<Rightarrow> string list \<Rightarrow> 'f world \<Rightarrow> 'f world" where
  "drop_tables env [] w = w"
| "drop_tables env (t # ts) w =
     drop_tables env ts (snd (execute env (Call (q_drop_table t) None) w))"

definition drop_cell :: "'f env \<Rightarrow> 'f cell" where
  "drop_cell env w =
     (None, drop_tables env [''artist_song_session'', ''song_playlist_session'', ''user_song''] w)"

text \<open>\<^verbatim>\<open>session.shutdown(); cluster.shutdown()\<close>\<close>

definition shutdown_cell :: "'f cell" where
  "shutdown_cell w = (None, emit ClusterShutdown (emit SessionShutdown w))"

text \<open>
  The second version of the notebook, top to bottom. \<open>file\<close> is what the load cells
  read back from the flat file the extract cell wrote.
\<close>

definition pipeline :: "'f env \<Rightarrow> (string \<times> row list) list \<Rightarrow> row list \<Rightarrow> 'f cell" where
  "pipeline env file_path_list file =
     run_cells [extract_cell file_path_list, count_cell, connect_cell env,
                definition_cell env q_create_keyspace, set_keyspace_cell,
                transform_phase env file, query_phase env, drop_cell env, shutdown_cell]"

definition fresh_world :: "'f world" where
  "fresh_world = \<lparr>db = empty_db, trace = [], rows_var = None\<rparr>"

section \<open>Reading the traces\<close>

text \<open>The \<^verbatim>\<open>session.execute\<close> calls of a trace, in order.\<close>

fun calls :: "'f event list \<Rightarrow> 'f call list" where
  "calls [] = []"
| "calls (Execute c # es) = c # calls es"
| "calls (e # es) = calls es"

text \<open>
  Open file handles, open cluster connections, and connections ever opened, after a
  trace. The first two are integers, so closing what is not open would show.
\<close>

fun step_resources :: "int \<times> int \<times> int \<Rightarrow> 'f event \<Rightarrow> int \<times> int \<times> int" where
  "step_resources (f, c, n) (FileOpen p) = (f + 1, c, n)"
| "step_resources (f, c, n) (FileClose p) = (f - 1, c, n)"
| "step_resources (f, c, n) ClusterConnect = (f, c + 1, n + 1)"
| "step_resources (f, c, n) ClusterShutdown = (f, c - 1, n)"
| "step_resources (f, c, n) e = (f, c, n)"

definition resources_after :: "'f event list \<Rightarrow> int \<times> int \<times> int" where
  "resources_after tr = foldl step_resources (0, 0, 0) tr"

definition within_limits :: "int \<times> int \<times> int \<Rightarrow> bool" where
  "within_limits s = (case s of (f, c, n) \<Rightarrow> 0 \<le> f \<and> f \<le> 1 \<and> 0 \<le> c \<and> c \<le> 1)"

text \<open>
  What the counts have to be when an event happens: a statement is executed, the
  keyspace is set and the session is shut down on the one open connection, a statement
  that binds values with exactly one file open and any other statement with none; the
  connection is opened once, and opened and shut down with no file open.
\<close>

fun allowed :: "int \<times> int \<times> int \<Rightarrow> 'f event \<Rightarrow> bool" where
  "allowed (f, c, n) (Execute call) =
     (c = 1 \<and> n = 1 \<and> f = (if params call = None then 0 else 1))"
| "allowed (f, c, n) (SetKeyspace k) = (c = 1)"
| "allowed (f, c, n) ClusterConnect = (f = 0 \<and> c = 0 \<and> n = 0)"
| "allowed (f, c, n) SessionShutdown = (f = 0 \<and> c = 1)"
| "allowed (f, c, n) ClusterShutdown = (f = 0 \<and> c = 1)"
| "allowed (f, c, n) e = True"

text \<open>
  A trace is orderly from the counts \<open>s\<close> on when every state along it is within the
  limits and every event is allowed where it happens.
\<close>

fun orderly :: "int \<times> int \<times> int \<Rightarrow> 'f event list \<Rightarrow> bool" where
  "orderly s [] = within_limits s"
| "orderly s (e # es) = (within_limits s \<and> allowed s e \<and> orderly (step_resources s e) es)"

text \<open>
  A world is settled at \<open>s\<close> when its trace is orderly from the start and has brought
  the counts to \<open>s\<close>. A world grows quietly from another at \<open>s\<close> when its trace is the
  other's with a segment added that is orderly from \<open>s\<close> and leaves the counts at \<open>s\<close>.
\<close>

definition settled :: "int \<times> int \<times> int \<Rightarrow> 'f world \<Rightarrow> bool" where
  "settled s w = (orderly (0, 0, 0) (trace w) \<and> resources_after (trace w) = s)"

definition quiet :: "int \<times> int \<times> int \<Rightarrow> 'f event list \<Rightarrow> bool" where
  "quiet s seg = (orderly s seg \<and> foldl step_resources s seg = s)"

definition grows :: "int \<times> int \<times> int \<Rightarrow> 'f world \<Rightarrow> 'f world \<Rightarrow> bool" where
  "grows s w w' = (\<exists>seg. trace w' = trace w @ seg \<and> quiet s seg)"


text \<open>
  A call is parameter-bound when it hands its values to the driver beside the text,
  as the insert loops do.
\<close>

definition parameter_bound :: "'f call \<Rightarrow> bool" where
  "parameter_bound c = (params c \<noteq> None)"




section \<open>Reading a CREATE TABLE statement\<close>










section \<open>An environment to compute with\<close>

text \<open>
  For evaluation at concrete files: \<open>ascii_int\<close> is Python's \<^verbatim>\<open>int\<close> on ASCII text
  (blanks around, an optional sign, decimal digits with single underscores between
  them). \<open>ascii_decimal\<close> stands in for \<^verbatim>\<open>float\<close> on the fields of the examples only:
  it is not Python's \<^verbatim>\<open>float\<close>. It reads a plain decimal literal, digits with an
  optional sign and an optional point with digits on both sides, to its digits and its
  number of decimal places (\<open>(m, e)\<close> for \<open>m / 10 ^ e\<close>); it refuses the other texts
  \<^verbatim>\<open>float\<close> reads (\<^verbatim>\<open>.5\<close>, \<^verbatim>\<open>5.\<close>, \<^verbatim>\<open>1e3\<close>, \<^verbatim>\<open>nan\<close>, \<^verbatim>\<open>inf\<close>), it does not round,
  and it keeps apart literals of one value (\<^verbatim>\<open>0.1\<close> and \<^verbatim>\<open>0.10\<close>). No theorem of a
  claim depends on it: they hold for every \<open>py_float\<close>. The store accepts every
  statement and the cluster answers.
\<close>

definition is_blank :: "char \<Rightarrow> bool" where
  "is_blank c = (c \<in> set [CHR 0x09, CHR 0x0A, CHR 0x0B, CHR 0x0C, CHR 0x0D, CHR 0x20])"

definition digit_of :: "char \<Rightarrow> nat option" where
  "digit_of c =
    (let n = (of_char c :: nat) in if 48 \<le> n \<and> n \<le> 57 then Some (n - 48) else None)"

fun digits :: "nat \<Rightarrow> string \<Rightarrow> nat option" where
  "digits acc [] = Some acc"
| "digits acc [c] = (case digit_of c of None \<Rightarrow> None | Some k \<Rightarrow> Some (10 * acc + k))"
| "digits acc (c # d # cs) =
     (case digit_of c of
        Some k \<Rightarrow> digits (10 * acc + k) (d # cs)
      | None \<Rightarrow>
          if c = CHR ''_''
          then (case digit_of d of None \<Rightarrow> None | Some k \<Rightarrow> digits (10 * acc + k) cs)
          else None)"

definition unsigned :: "string \<Rightarrow> nat option" where
  "unsigned s =
    (case s of
       [] \<Rightarrow> None
     | c # cs \<Rightarrow> (case digit_of c of None \<Rightarrow> None | Some k \<Rightarrow> digits k cs))"

definition strip :: "string \<Rightarrow> string" where
  "strip s = rev (dropWhile is_blank (rev (dropWhile is_blank s)))"

definition signed :: "(string \<Rightarrow> 'a option) \<Rightarrow> ('a \<Rightarrow> 'a) \<Rightarrow> string \<Rightarrow> 'a option" where
  "signed magnitude negate s =
    (case s of
       [] \<Rightarrow> None
     | c # cs \<Rightarrow>
         if c = CHR ''-'' then map_option negate (magnitude cs)
         else if c = CHR ''+'' then magnitude cs
         else magnitude s)"

definition ascii_int :: "string \<Rightarrow> int option" where
  "ascii_int s = signed (\<lambda>t. map_option int (unsigned t)) uminus (strip s)"

definition decimal :: "string \<Rightarrow> (int \<times> nat) option" where
  "decimal s =
    (let whole = takeWhile (\<lambda>c. c \<noteq> CHR ''.'') s;
         rest = dropWhile (\<lambda>c. c \<noteq> CHR ''.'') s
     in case unsigned whole of
          None \<Rightarrow> None
        | Some n \<Rightarrow>
            (case rest of
               [] \<Rightarrow> Some (int n, 0)
             | dot # places \<Rightarrow>
                 (case unsigned places of
                    None \<Rightarrow> None
                  | Some m \<Rightarrow> Some (int n * 10 ^ length places + int m, length places))))"

definition ascii_decimal :: "string \<Rightarrow> (int \<times> nat) option" where
  "ascii_decimal s = signed decimal (\<lambda>(m, e). (- m, e)) (strip s)"

definition accept_all :: "(int \<times> nat) call \<Rightarrow> bool" where
  "accept_all c = True"

definition plain_env :: "(int \<times> nat) env" where
  "plain_env =
     \<lparr>py_int = ascii_int, py_float = ascii_decimal, accepts = accept_all, cluster_up = True\<rparr>"


section \<open>What a load loop stores\<close>

text \<open>The store after a statement: unchanged when the statement fails.\<close>

definition store_after :: "'f call \<Rightarrow> 'f db \<Rightarrow> 'f db" where
  "store_after c d = (case run_stmt c d of Inl e \<Rightarrow> d | Inr (res, d') \<Rightarrow> d')"

text \<open>
  The value tuples of the records before the first one that raises: the records an
  insert loop gets into the store.
\<close>

fun inserted ::
  "'f env \<Rightarrow> string \<Rightarrow> ('f env \<Rightarrow> row \<Rightarrow> py_error + 'f cql list) \<Rightarrow> row list \<Rightarrow> 'f cql list list"
  where
  "inserted env q args [] = []"
| "inserted env q args (line # rest) =
     (case args env line of
        Inl e \<Rightarrow> []
      | Inr vs \<Rightarrow> if accepts env (Call q (Some vs)) then vs # inserted env q args rest else [])"

text \<open>A sequence of inserts with one statement text, each with its tuple of values.\<close>

definition run_inserts :: "string \<Rightarrow> 'f cql list list \<Rightarrow> 'f db \<Rightarrow> 'f db" where
  "run_inserts q vss d = foldl (\<lambda>d vs. store_after (Call q (Some vs)) d) d vss"

text \<open>
  A table is clustered when each partition is in strictly ascending order of the
  clustering key, so that it holds one row per primary key. The empty table is, and
  every statement keeps a table so.
\<close>

definition clustered :: "('pk, 'ck::linorder, 'v) table \<Rightarrow> bool" where
  "clustered t = (\<forall>pk. sorted_wrt (<) (map fst (partition_of t pk)))"

definition clustered_db :: "'f db \<Rightarrow> bool" where
  "clustered_db d =
     (clustered (artist_song_session d) \<and> clustered (song_playlist_session d)
      \<and> clustered (user_song d) \<and> clustered (question_2 d))"

section \<open>Properties of the extract phase\<close>

lemma gets_in_range:
  "\<forall>i \<in> set js. i < length r \<Longrightarrow> gets r js = Inr (map (\<lambda>i. r ! i) js)"
  by (induction js) (simp_all add: get_def)

lemma gets_kept_fields:
  assumes "17 \<le> length r"
  shows "gets r kept_fields =
    Inr [r ! 0, r ! 2, r ! 3, r ! 4, r ! 5, r ! 6, r ! 7, r ! 8, r ! 12, r ! 13, r ! 16]"
proof -
  have "\<forall>i \<in> set kept_fields. i < length r"
    using assms by (auto simp add: kept_fields_def)
  then have "gets r kept_fields = Inr (map (\<lambda>i. r ! i) kept_fields)"
    by (rule gets_in_range)
  then show ?thesis by (simp add: kept_fields_def)
qed

lemma write_data_rows_wide:
  assumes "\<forall>r \<in> set rows. 17 \<le> length r"
  shows "write_data_rows rows out =
    (None, out @ map (\<lambda>r. [r ! 0, r ! 2, r ! 3, r ! 4, r ! 5, r ! 6, r ! 7, r ! 8,
                              r ! 12, r ! 13, r ! 16])
                   (filter (\<lambda>r. r ! 0 \<noteq> '''') rows))"
  using assms
proof (induction rows arbitrary: out)
  case Nil
  show ?case by simp
next
  case (Cons r rest)
  from Cons.prems have len: "17 \<le> length r" and rest: "\<forall>r \<in> set rest. 17 \<le> length r"
    by simp_all
  from len have g0: "get r 0 = Inr (r ! 0)" by (auto simp add: get_def)
  show ?case
  proof (cases "r ! 0 = ''''")
    case True
    with g0 Cons.IH [OF rest] show ?thesis by simp
  next
    case False
    with g0 gets_kept_fields [OF len] Cons.IH [OF rest] show ?thesis by simp
  qed
qed

text \<open>
  C1. When every input row has at least 17 fields, the extract phase raises nothing and
  the rows written are the 11-column header followed, in input order, by the projection
  to fields 0, 2, 3, 4, 5, 6, 7, 8, 12, 13, 16 of exactly the input rows whose field 0
  (artist) is not empty.
\<close>

theorem extract_filter_project:
  assumes "\<forall>r \<in> set rows. 17 \<le> length r"
  shows "write_new_datafile rows =
    (None,
     [''artist'', ''firstName'', ''gender'', ''itemInSession'', ''lastName'', ''length'',
      ''level'', ''location'', ''sessionId'', ''song'', ''userId'']
     # map (\<lambda>r. [r ! 0, r ! 2, r ! 3, r ! 4, r ! 5, r ! 6, r ! 7, r ! 8,
                   r ! 12, r ! 13, r ! 16])
           (filter (\<lambda>r. r ! 0 \<noteq> '''') rows))"
  using write_data_rows_wide [OF assms, of "[header_row]"]
  by (simp add: write_new_datafile_def header_row_def)

theorem extract_filter_project_witness:
  "write_new_datafile
     [[''Faithless'', ''Logged In'', ''Ava'', ''F'', ''4'', ''Robinson'', ''495.3073'', ''free'',
       ''New Haven'', ''PUT'', ''NextSong'', ''1.54'', ''338'', ''Music Matters'', ''200'',
       ''1541'', ''50''],
      ['''', ''Logged In'', ''Ava'', ''F'', ''5'', ''Robinson'', '''', ''free'',
       ''New Haven'', ''GET'', ''Home'', ''1.54'', ''338'', '''', ''200'', ''1541'', ''50'']]
   = (None,
      [[''artist'', ''firstName'', ''gender'', ''itemInSession'', ''lastName'', ''length'',
        ''level'', ''location'', ''sessionId'', ''song'', ''userId''],
       [''Faithless'', ''Ava'', ''F'', ''4'', ''Robinson'', ''495.3073'', ''free'',
        ''New Haven'', ''338'', ''Music Matters'', ''50'']])"
  using extract_filter_project
    [of "[[''Faithless'', ''Logged In'', ''Ava'', ''F'', ''4'', ''Robinson'', ''495.3073'',
           ''free'', ''New Haven'', ''PUT'', ''NextSong'', ''1.54'', ''338'', ''Music Matters'',
           ''200'', ''1541'', ''50''],
          ['''', ''Logged In'', ''Ava'', ''F'', ''5'', ''Robinson'', '''', ''free'',
           ''New Haven'', ''GET'', ''Home'', ''1.54'', ''338'', '''', ''200'', ''1541'', ''50'']]"]
  by simp

section \<open>Traces of the session\<close>

lemma calls_append: "calls (a @ b) = calls a @ calls b"
  by (induction a rule: calls.induct) simp_all

lemma calls_map_Execute: "calls (map Execute cs) = cs"
  by (induction cs) simp_all

lemma trace_emit: "trace (emit e w) = trace w @ [e]"
  by (simp add: emit_def)

lemma db_emit: "db (emit e w) = db w"
  by (simp add: emit_def)

lemma rows_var_emit: "rows_var (emit e w) = rows_var w"
  by (simp add: emit_def)

lemma trace_execute: "trace (snd (execute env c w)) = trace w @ [Execute c]"
  by (simp add: execute_def Let_def trace_emit split: sum.splits prod.splits)

lemma rows_var_execute: "rows_var (snd (execute env c w)) = rows_var w"
  by (simp add: execute_def Let_def rows_var_emit split: sum.splits prod.splits)

lemma insert_loop_step_error:
  assumes "args env line = Inr vs" and "execute env (Call q (Some vs)) w = (Inl e, w')"
  shows "insert_loop env q args (line # rest) w = (Some e, w')"
  using assms by simp

lemma insert_loop_step_ok:
  assumes "args env line = Inr vs" and "execute env (Call q (Some vs)) w = (Inr res, w')"
  shows "insert_loop env q args (line # rest) w = insert_loop env q args rest w'"
  using assms by simp

lemma insert_loop_step_args:
  assumes "args env line = Inl e"
  shows "insert_loop env q args (line # rest) w = (Some e, w)"
  using assms by simp

lemma insert_loop_trace:
  "\<exists>vss. trace (snd (insert_loop env q args lines w))
            = trace w @ map (\<lambda>vs. Execute (Call q (Some vs))) vss
        \<and> length vss \<le> length lines
        \<and> (fst (insert_loop env q args lines w) = None \<longrightarrow> map (args env) lines = map Inr vss)"
proof (induction lines arbitrary: w)
  case Nil
  show ?case by simp
next
  case (Cons line rest)
  show ?case
  proof (cases "args env line")
    case (Inl e)
    show ?thesis
      unfolding insert_loop_step_args [where args=args and env=env and line=line, OF Inl]
      by (rule exI [of _ "[]"]) simp
  next
    case args: (Inr vs)
    obtain r w' where ex: "execute env (Call q (Some vs)) w = (r, w')"
      by (cases "execute env (Call q (Some vs)) w")
    have tr: "trace w' = trace w @ [Execute (Call q (Some vs))]"
      using trace_execute [of env "Call q (Some vs)" w] ex by simp
    show ?thesis
    proof (cases r)
      case (Inl e)
      have step: "insert_loop env q args (line # rest) w = (Some e, w')"
        using insert_loop_step_error [where args=args and env=env and line=line, OF args] ex Inl
        by simp
      show ?thesis
        unfolding step using tr by (intro exI [of _ "[vs]"]) simp
    next
      case (Inr res)
      have step: "insert_loop env q args (line # rest) w = insert_loop env q args rest w'"
        using insert_loop_step_ok [where args=args and env=env and line=line, OF args] ex Inr
        by simp
      from Cons.IH [of w'] obtain vss where
        a: "trace (snd (insert_loop env q args rest w'))
            = trace w' @ map (\<lambda>vs. Execute (Call q (Some vs))) vss"
        and b: "length vss \<le> length rest"
        and c: "fst (insert_loop env q args rest w') = None \<longrightarrow> map (args env) rest = map Inr vss"
        by (elim exE conjE)
      show ?thesis
        unfolding step using a b c tr args
        by (intro exI [of _ "vs # vss"]) simp
    qed
  qed
qed


lemma load_table_header:
  "load_table env q args (header # lines) w =
     (fst (insert_loop env q args lines (emit (FileOpen new_datafile) w)),
      emit (FileClose new_datafile)
        (snd (insert_loop env q args lines (emit (FileOpen new_datafile) w))))"
  by (simp add: load_table_def Let_def split: prod.splits)

lemma load_table_calls:
  "\<exists>vss. calls (trace (snd (load_table env q args (header # lines) w)))
            = calls (trace w) @ map (\<lambda>vs. Call q (Some vs)) vss
        \<and> length vss \<le> length lines
        \<and> (fst (load_table env q args (header # lines) w) = None
             \<longrightarrow> map (args env) lines = map Inr vss)"
proof -
  let ?w1 = "emit (FileOpen new_datafile) w"
  from insert_loop_trace [of env q args lines ?w1] obtain vss where
    a: "trace (snd (insert_loop env q args lines ?w1))
          = trace ?w1 @ map (\<lambda>vs. Execute (Call q (Some vs))) vss"
    and b: "length vss \<le> length lines"
    and c: "fst (insert_loop env q args lines ?w1) = None \<longrightarrow> map (args env) lines = map Inr vss"
    by (elim exE conjE)
  have m: "map (\<lambda>vs. Execute (Call q (Some vs))) vss = map Execute (map (\<lambda>vs. Call q (Some vs)) vss)"
    by simp
  have "calls (trace (snd (load_table env q args (header # lines) w)))
            = calls (trace w) @ map (\<lambda>vs. Call q (Some vs)) vss"
    unfolding load_table_header snd_conv trace_emit a m calls_append calls_map_Execute
    by simp
  moreover have "fst (load_table env q args (header # lines) w) = fst (insert_loop env q args lines ?w1)"
    unfolding load_table_header by simp
  ultimately show ?thesis using b c by (intro exI [of _ vss]) simp
qed

section \<open>Statements and the values bound to them\<close>

lemma classify_inserts:
  "classify q_insert_artist_song_session = InsertArtistSongSession"
  "classify q_insert_song_playlist_session = InsertSongPlaylistSession"
  "classify q_insert_user_song = InsertUserSong"
  "classify q_insert_question_2 = InsertQuestion2"
  by (simp_all add: classify_def q_insert_artist_song_session_def
      q_insert_song_playlist_session_def q_insert_user_song_def q_insert_question_2_def)

lemma classify_selects:
  "classify q_select_artist_song_session = SelectArtistSongSession"
  "classify q_select_song_playlist_session = SelectSongPlaylistSession"
  "classify q_select_user_song = SelectUserSong"
  "classify q_select_user_song_readme = SelectUserSongReadme"
  "classify q_select_question_2 = SelectQuestion2"
  by (simp_all add: classify_def q_insert_artist_song_session_def
      q_insert_song_playlist_session_def q_insert_user_song_def q_insert_question_2_def
      q_select_artist_song_session_def q_select_song_playlist_session_def
      q_select_user_song_def q_select_user_song_readme_def q_select_question_2_def)

lemma artist_song_session_args_shape:
  assumes "artist_song_session_args env l = Inr vs"
  shows "\<exists>sid item a s len. vs = [CInt sid, CInt item, CText a, CText s, CDouble len]"
  using assms by (auto simp: artist_song_session_args_def ebind_def split: sum.splits)

lemma song_playlist_session_args_shape:
  assumes "song_playlist_session_args env l = Inr vs"
  shows "\<exists>uid sid item a s fname lname.
           vs = [CInt uid, CInt sid, CInt item, CText a, CText s, CText fname, CText lname]"
  using assms by (auto simp: song_playlist_session_args_def ebind_def split: sum.splits)

lemma user_song_args_shape:
  assumes "user_song_args env l = Inr vs"
  shows "\<exists>s uid fname lname. vs = [CText s, CInt uid, CText fname, CText lname]"
  using assms by (auto simp: user_song_args_def ebind_def split: sum.splits)

lemma question_2_args_shape:
  assumes "question_2_args env l = Inr vs"
  shows "\<exists>a s sid item uid fname lname.
           vs = [CText a, CText s, CInt sid, CInt item, CInt uid, CText fname, CText lname]"
  using assms by (auto simp: question_2_args_def ebind_def split: sum.splits)

section \<open>The load loops: one call per record\<close>

lemma runs_insert_artist_song_session:
  assumes "artist_song_session_args env l = Inr vs"
  shows "\<exists>res d'. run_stmt (Call q_insert_artist_song_session (Some vs)) d = Inr (res, d')"
  using artist_song_session_args_shape [OF assms]
  by (auto simp: run_stmt_def classify_inserts insert_result_def bound_def)

lemma runs_insert_song_playlist_session:
  assumes "song_playlist_session_args env l = Inr vs"
  shows "\<exists>res d'. run_stmt (Call q_insert_song_playlist_session (Some vs)) d = Inr (res, d')"
  using song_playlist_session_args_shape [OF assms]
  by (auto simp: run_stmt_def classify_inserts insert_result_def bound_def)

lemma runs_insert_user_song:
  assumes "user_song_args env l = Inr vs"
  shows "\<exists>res d'. run_stmt (Call q_insert_user_song (Some vs)) d = Inr (res, d')"
  using user_song_args_shape [OF assms]
  by (auto simp: run_stmt_def classify_inserts insert_result_def bound_def)

lemma runs_insert_question_2:
  assumes "question_2_args env l = Inr vs"
  shows "\<exists>res d'. run_stmt (Call q_insert_question_2 (Some vs)) d = Inr (res, d')"
  using question_2_args_shape [OF assms]
  by (auto simp: run_stmt_def classify_inserts insert_result_def bound_def)

lemma execute_accepted:
  assumes "accepts env c" and "run_stmt c (db w) = Inr (res, d')"
  shows "execute env c w = (Inr res, (emit (Execute c) w)\<lparr>db := d'\<rparr>)"
  using assms by (simp add: execute_def Let_def db_emit)

lemma execute_refused:
  assumes "\<not> accepts env c"
  shows "execute env c w = (Inl InvalidRequest, emit (Execute c) w)"
  using assms by (simp add: execute_def Let_def)

lemma insert_loop_all_ok:
  assumes "\<forall>l \<in> set lines. \<exists>vs. args env l = Inr vs \<and> accepts env (Call q (Some vs))"
    and runs: "\<And>l vs d. args env l = Inr vs \<Longrightarrow> \<exists>res d'. run_stmt (Call q (Some vs)) d = Inr (res, d')"
  shows "fst (insert_loop env q args lines w) = None \<and>
         trace (snd (insert_loop env q args lines w))
           = trace w @ map (\<lambda>l. Execute (Call q (Some (projr (args env l))))) lines"
  using assms(1)
proof (induction lines arbitrary: w)
  case Nil
  show ?case by simp
next
  case (Cons line rest)
  from Cons.prems obtain vs where args: "args env line = Inr vs"
    and acc: "accepts env (Call q (Some vs))"
    and rest: "\<forall>l \<in> set rest. \<exists>vs. args env l = Inr vs \<and> accepts env (Call q (Some vs))"
    by auto
  from runs [OF args, of "db w"] obtain res d' where
    run: "run_stmt (Call q (Some vs)) (db w) = Inr (res, d')" by (elim exE)
  let ?w' = "(emit (Execute (Call q (Some vs))) w)\<lparr>db := d'\<rparr>"
  have step: "insert_loop env q args (line # rest) w = insert_loop env q args rest ?w'"
    using insert_loop_step_ok [where args=args and env=env and line=line, OF args]
      execute_accepted [OF acc run] by simp
  have tr: "trace ?w' = trace w @ [Execute (Call q (Some vs))]"
    by (simp add: trace_emit)
  show ?case
    unfolding step using Cons.IH [OF rest, of ?w'] tr args by simp
qed

lemma load_table_all_ok:
  assumes "\<forall>l \<in> set lines. \<exists>vs. args env l = Inr vs \<and> accepts env (Call q (Some vs))"
    and runs: "\<And>l vs d. args env l = Inr vs \<Longrightarrow> \<exists>res d'. run_stmt (Call q (Some vs)) d = Inr (res, d')"
  shows "fst (load_table env q args (header # lines) w) = None \<and>
         calls (trace (snd (load_table env q args (header # lines) w)))
           = calls (trace w) @ map (\<lambda>l. Call q (Some (projr (args env l)))) lines"
proof -
  let ?w1 = "emit (FileOpen new_datafile) w"
  note ok = insert_loop_all_ok [where args=args and env=env and q=q and lines=lines and w="?w1", OF assms(1) runs]
  have m: "map (\<lambda>l. Execute (Call q (Some (projr (args env l))))) lines
           = map Execute (map (\<lambda>l. Call q (Some (projr (args env l)))) lines)"
    by simp
  have t: "trace (snd (insert_loop env q args lines ?w1))
           = trace ?w1 @ map Execute (map (\<lambda>l. Call q (Some (projr (args env l)))) lines)"
    using ok unfolding m by (rule conjunct2)
  have "calls (trace (snd (load_table env q args (header # lines) w)))
           = calls (trace w) @ map (\<lambda>l. Call q (Some (projr (args env l)))) lines"
    unfolding load_table_header snd_conv trace_emit t calls_append calls_map_Execute
    by simp
  moreover have "fst (load_table env q args (header # lines) w) = None"
    unfolding load_table_header using ok by simp
  ultimately show ?thesis by simp
qed

lemma load_table_at_most:
  "length (calls (trace (snd (load_table env q args (header # lines) w))))
     \<le> length (calls (trace w)) + length lines"
proof -
  from load_table_calls [of env q args header lines w] obtain vss where
    "calls (trace (snd (load_table env q args (header # lines) w)))
            = calls (trace w) @ map (\<lambda>vs. Call q (Some vs)) vss"
    and "length vss \<le> length lines"
    by (elim exE conjE)
  then show ?thesis by simp
qed

text \<open>
  C3, as amended. For each of the three tables and every flat file of one header line
  and \<open>n\<close> data records: when every record converts (it has the fields the loop reads,
  and \<^verbatim>\<open>int\<close> and \<^verbatim>\<open>float\<close> accept them) and the store accepts its insert, the load loop
  raises nothing and makes exactly \<open>n\<close> execute calls, all the table's INSERT, the
  \<open>i\<close>-th with the values of the \<open>i\<close>-th record; the header line is passed to no call.
  Whatever the file holds, the loop makes at most \<open>n\<close> calls: it stops at the first
  record that raises.
\<close>

theorem load_one_insert_per_record:
  "((\<forall>l \<in> set lines. \<exists>vs. artist_song_session_args env l = Inr vs
        \<and> accepts env (Call q_insert_artist_song_session (Some vs)))
    \<longrightarrow> fst (load_artist_song_session env (header # lines) w) = None
      \<and> calls (trace (snd (load_artist_song_session env (header # lines) w)))
          = calls (trace w)
            @ map (\<lambda>l. Call q_insert_artist_song_session
                          (Some (projr (artist_song_session_args env l)))) lines)
   \<and> ((\<forall>l \<in> set lines. \<exists>vs. song_playlist_session_args env l = Inr vs
        \<and> accepts env (Call q_insert_song_playlist_session (Some vs)))
    \<longrightarrow> fst (load_song_playlist_session env (header # lines) w) = None
      \<and> calls (trace (snd (load_song_playlist_session env (header # lines) w)))
          = calls (trace w)
            @ map (\<lambda>l. Call q_insert_song_playlist_session
                          (Some (projr (song_playlist_session_args env l)))) lines)
   \<and> ((\<forall>l \<in> set lines. \<exists>vs. user_song_args env l = Inr vs
        \<and> accepts env (Call q_insert_user_song (Some vs)))
    \<longrightarrow> fst (load_user_song env (header # lines) w) = None
      \<and> calls (trace (snd (load_user_song env (header # lines) w)))
          = calls (trace w)
            @ map (\<lambda>l. Call q_insert_user_song (Some (projr (user_song_args env l)))) lines)
   \<and> length (calls (trace (snd (load_artist_song_session env (header # lines) w))))
       \<le> length (calls (trace w)) + length lines
   \<and> length (calls (trace (snd (load_song_playlist_session env (header # lines) w))))
       \<le> length (calls (trace w)) + length lines
   \<and> length (calls (trace (snd (load_user_song env (header # lines) w))))
       \<le> length (calls (trace w)) + length lines"
proof (intro conjI impI)
  assume a: "\<forall>l \<in> set lines. \<exists>vs. artist_song_session_args env l = Inr vs
        \<and> accepts env (Call q_insert_artist_song_session (Some vs))"
  note r = load_table_all_ok [where args=artist_song_session_args and env=env, OF a runs_insert_artist_song_session,
      where header=header and w=w]
  show "fst (load_artist_song_session env (header # lines) w) = None"
    unfolding load_artist_song_session_def using r by simp
  show "calls (trace (snd (load_artist_song_session env (header # lines) w)))
          = calls (trace w)
            @ map (\<lambda>l. Call q_insert_artist_song_session
                          (Some (projr (artist_song_session_args env l)))) lines"
    unfolding load_artist_song_session_def using r by simp
next
  assume a: "\<forall>l \<in> set lines. \<exists>vs. song_playlist_session_args env l = Inr vs
        \<and> accepts env (Call q_insert_song_playlist_session (Some vs))"
  note r = load_table_all_ok [where args=song_playlist_session_args and env=env, OF a runs_insert_song_playlist_session,
      where header=header and w=w]
  show "fst (load_song_playlist_session env (header # lines) w) = None"
    unfolding load_song_playlist_session_def using r by simp
  show "calls (trace (snd (load_song_playlist_session env (header # lines) w)))
          = calls (trace w)
            @ map (\<lambda>l. Call q_insert_song_playlist_session
                          (Some (projr (song_playlist_session_args env l)))) lines"
    unfolding load_song_playlist_session_def using r by simp
next
  assume a: "\<forall>l \<in> set lines. \<exists>vs. user_song_args env l = Inr vs
        \<and> accepts env (Call q_insert_user_song (Some vs))"
  note r = load_table_all_ok [where args=user_song_args and env=env, OF a runs_insert_user_song,
      where header=header and w=w]
  show "fst (load_user_song env (header # lines) w) = None"
    unfolding load_user_song_def using r by simp
  show "calls (trace (snd (load_user_song env (header # lines) w)))
          = calls (trace w)
            @ map (\<lambda>l. Call q_insert_user_song (Some (projr (user_song_args env l)))) lines"
    unfolding load_user_song_def using r by simp
next
  show "length (calls (trace (snd (load_artist_song_session env (header # lines) w))))
       \<le> length (calls (trace w)) + length lines"
    unfolding load_artist_song_session_def by (rule load_table_at_most)
  show "length (calls (trace (snd (load_song_playlist_session env (header # lines) w))))
       \<le> length (calls (trace w)) + length lines"
    unfolding load_song_playlist_session_def by (rule load_table_at_most)
  show "length (calls (trace (snd (load_user_song env (header # lines) w))))
       \<le> length (calls (trace w)) + length lines"
    unfolding load_user_song_def by (rule load_table_at_most)
qed

lemma plain_args_artist_song_session:
  "artist_song_session_args plain_env
     [''Faithless'', ''Ava'', ''F'', ''4'', ''Robinson'', ''495.3073'', ''free'', ''New Haven'',
      ''338'', ''Music Matters'', ''50'']
   = Inr [CInt 338, CInt 4, CText ''Faithless'', CText ''Music Matters'',
          CDouble (4953073, 4)]"
  by code_simp

lemma plain_args_song_playlist_session:
  "song_playlist_session_args plain_env
     [''Faithless'', ''Ava'', ''F'', ''4'', ''Robinson'', ''495.3073'', ''free'', ''New Haven'',
      ''338'', ''Music Matters'', ''50'']
   = Inr [CInt 50, CInt 338, CInt 4, CText ''Faithless'', CText ''Music Matters'',
          CText ''Ava'', CText ''Robinson'']"
  by code_simp

lemma plain_args_user_song:
  "user_song_args plain_env
     [''Faithless'', ''Ava'', ''F'', ''4'', ''Robinson'', ''495.3073'', ''free'', ''New Haven'',
      ''338'', ''Music Matters'', ''50'']
   = Inr [CText ''Music Matters'', CInt 50, CText ''Ava'', CText ''Robinson'']"
  by code_simp

lemma accepts_plain_env: "accepts plain_env c"
  by (simp add: plain_env_def accept_all_def)

theorem load_one_insert_per_record_witness:
  "fst (load_artist_song_session plain_env
         [header_row,
          [''Faithless'', ''Ava'', ''F'', ''4'', ''Robinson'', ''495.3073'', ''free'',
           ''New Haven'', ''338'', ''Music Matters'', ''50'']] fresh_world) = None
   \<and> calls (trace (snd (load_artist_song_session plain_env
         [header_row,
          [''Faithless'', ''Ava'', ''F'', ''4'', ''Robinson'', ''495.3073'', ''free'',
           ''New Haven'', ''338'', ''Music Matters'', ''50'']] fresh_world)))
      = [Call q_insert_artist_song_session
           (Some [CInt 338, CInt 4, CText ''Faithless'', CText ''Music Matters'',
                  CDouble (4953073, 4)])]
   \<and> calls (trace (snd (load_song_playlist_session plain_env
         [header_row,
          [''Faithless'', ''Ava'', ''F'', ''4'', ''Robinson'', ''495.3073'', ''free'',
           ''New Haven'', ''338'', ''Music Matters'', ''50'']] fresh_world)))
      = [Call q_insert_song_playlist_session
           (Some [CInt 50, CInt 338, CInt 4, CText ''Faithless'', CText ''Music Matters'',
                  CText ''Ava'', CText ''Robinson''])]
   \<and> calls (trace (snd (load_user_song plain_env
         [header_row,
          [''Faithless'', ''Ava'', ''F'', ''4'', ''Robinson'', ''495.3073'', ''free'',
           ''New Haven'', ''338'', ''Music Matters'', ''50'']] fresh_world)))
      = [Call q_insert_user_song
           (Some [CText ''Music Matters'', CInt 50, CText ''Ava'', CText ''Robinson''])]"
  using load_one_insert_per_record
    [of "[[''Faithless'', ''Ava'', ''F'', ''4'', ''Robinson'', ''495.3073'', ''free'',
           ''New Haven'', ''338'', ''Music Matters'', ''50'']]" plain_env header_row fresh_world]
  by (simp add: plain_args_artist_song_session plain_args_song_playlist_session
      plain_args_user_song accepts_plain_env fresh_world_def)

text \<open>
  The claim as stated fails on a record whose user id is empty: \<^verbatim>\<open>int('')\<close> raises
  ValueError, and the loop over this one-record file makes no call.
\<close>

theorem load_one_insert_per_record_counterexample:
  "fst (load_user_song plain_env
         [header_row,
          [''Faithless'', ''Ava'', ''F'', ''4'', ''Robinson'', ''495.3073'', ''free'',
           ''New Haven'', ''338'', ''Music Matters'', '''']] fresh_world) = Some ValueError
   \<and> length (calls (trace (snd (load_user_song plain_env
         [header_row,
          [''Faithless'', ''Ava'', ''F'', ''4'', ''Robinson'', ''495.3073'', ''free'',
           ''New Haven'', ''338'', ''Music Matters'', '''']] fresh_world)))) \<noteq> 1"
  by code_simp

section \<open>The query cells: literal statements\<close>

lemma trace_query_cell:
  "trace (snd (query_cell env q names w)) = trace w @ [Execute (Call q None)]"
proof -
  obtain r w1 where ex: "execute env (Call q None) w = (r, w1)"
    by (cases "execute env (Call q None) w")
  have tr: "trace w1 = trace w @ [Execute (Call q None)]"
    using trace_execute [of env "Call q None" w] ex by simp
  show ?thesis
    unfolding query_cell_def ex using tr
    by (cases r) (simp_all add: Let_def split: option.splits prod.splits)
qed

lemma run_cells_raise: "fst (c w) \<noteq> None \<Longrightarrow> run_cells (c # cs) w = c w"
  by (cases "c w") (auto split: option.splits)

lemma run_cells_pass: "fst (c w) = None \<Longrightarrow> run_cells (c # cs) w = run_cells cs (snd (c w))"
  by (cases "c w") (auto split: option.splits)

lemma run_cells_single: "snd (run_cells [c] w) = snd (c w)"
  by (cases "c w") (auto split: option.splits)

lemma calls_snoc_Execute: "calls (es @ [Execute c]) = calls es @ [c]"
  by (simp add: calls_append)

text \<open>
  C6, as amended. Every \<^verbatim>\<open>session.execute\<close> call of the query phase passes the query
  text alone, without a tuple of values: the calls are, in order, the three SELECT
  texts (all three when no cell raises), and each text holds its comparison values as
  literals in its WHERE clause. Only the INSERT calls of the load loops pass values
  beside the text.
\<close>

theorem query_calls_literal:
  "(\<exists>cs zs. [Call q_select_artist_song_session None, Call q_select_song_playlist_session None,
              Call q_select_user_song None] = cs @ zs
      \<and> calls (trace (snd (query_phase env w))) = calls (trace w) @ cs
      \<and> (fst (query_phase env w) = None \<longrightarrow> zs = []))
   \<and> (\<exists>p. q_select_artist_song_session = p @ ''WHERE session_id=338 and item_in_session=4'')
   \<and> (\<exists>p. q_select_song_playlist_session = p @ ''WHERE user_id=10 and session_id=182'')
   \<and> (\<exists>p. q_select_user_song
          = p @ ''WHERE song='' @ [CHR 0x27] @ ''All Hands Against His Own'' @ [CHR 0x27])"
proof (intro conjI)
  let ?c1 = "Call q_select_artist_song_session None :: 'a call"
  let ?c2 = "Call q_select_song_playlist_session None :: 'a call"
  let ?c3 = "Call q_select_user_song None :: 'a call"
  let ?w1 = "snd (query_1 env w)"
  let ?w2 = "snd (query_2 env ?w1)"
  let ?w3 = "snd (query_3 env ?w2)"
  have t1: "calls (trace ?w1) = calls (trace w) @ [?c1]"
    by (simp add: query_1_def trace_query_cell calls_snoc_Execute)
  have t2: "calls (trace ?w2) = calls (trace w) @ [?c1, ?c2]"
    by (simp add: query_2_def trace_query_cell calls_snoc_Execute t1)
  have t3: "calls (trace ?w3) = calls (trace w) @ [?c1, ?c2, ?c3]"
    by (simp add: query_3_def trace_query_cell calls_snoc_Execute t2)
  show "\<exists>cs zs. [?c1, ?c2, ?c3] = cs @ zs
      \<and> calls (trace (snd (query_phase env w))) = calls (trace w) @ cs
      \<and> (fst (query_phase env w) = None \<longrightarrow> zs = [])"
  proof (cases "fst (query_1 env w) = None")
    case False
    then have "query_phase env w = query_1 env w"
      unfolding query_phase_def by (rule run_cells_raise)
    with False t1 show ?thesis
      by (intro exI [of _ "[?c1]"] exI [of _ "[?c2, ?c3]"]) simp
  next
    case a: True
    show ?thesis
    proof (cases "fst (query_2 env ?w1) = None")
      case False
      then have "run_cells [query_2 env, query_3 env] ?w1 = query_2 env ?w1"
        by (rule run_cells_raise)
      then have "query_phase env w = query_2 env ?w1"
        unfolding query_phase_def run_cells_pass [of "query_1 env", OF a] .
      with False t2 show ?thesis
        by (intro exI [of _ "[?c1, ?c2]"] exI [of _ "[?c3]"]) simp
    next
      case b: True
      have "snd (query_phase env w) = ?w3"
        unfolding query_phase_def run_cells_pass [of "query_1 env", OF a]
          run_cells_pass [of "query_2 env", OF b]
        by (rule run_cells_single)
      with t3 show ?thesis
        by (intro exI [of _ "[?c1, ?c2, ?c3]"] exI [of _ "[]"]) simp
    qed
  qed
next
  show "\<exists>p. q_select_artist_song_session = p @ ''WHERE session_id=338 and item_in_session=4''"
    unfolding q_select_artist_song_session_def by (rule exI) (rule refl)
next
  show "\<exists>p. q_select_song_playlist_session = p @ ''WHERE user_id=10 and session_id=182''"
    unfolding q_select_song_playlist_session_def by (rule exI) (rule refl)
next
  show "\<exists>p. q_select_user_song
          = p @ ''WHERE song='' @ [CHR 0x27] @ ''All Hands Against His Own'' @ [CHR 0x27]"
    unfolding q_select_user_song_def
    by (rule exI [of _ "''SELECT first_name, last_name FROM user_song ''"]) simp
qed

theorem query_calls_literal_witness:
  "calls (trace (snd (query_phase plain_env fresh_world)))
     = [Call q_select_artist_song_session None, Call q_select_song_playlist_session None,
        Call q_select_user_song None]
   \<and> fst (query_phase plain_env fresh_world) = None"
proof -
  have n: "fst (query_phase plain_env fresh_world) = None"
    by code_simp
  from query_calls_literal [of plain_env fresh_world] obtain cs zs where
    "[Call q_select_artist_song_session None, Call q_select_song_playlist_session None,
              Call q_select_user_song None] = cs @ (zs :: (int \<times> nat) call list)"
    and "calls (trace (snd (query_phase plain_env fresh_world))) = calls (trace fresh_world) @ cs"
    and "fst (query_phase plain_env fresh_world) = None \<longrightarrow> zs = []"
    by (elim exE conjE)
  with n show ?thesis by (simp add: fresh_world_def)
qed

text \<open>
  The claim as stated fails: the calls of the query phase are not parameter-bound.
\<close>

theorem query_calls_literal_counterexample:
  "\<not> list_all parameter_bound (calls (trace (snd (query_phase plain_env fresh_world))))"
  by code_simp

section \<open>The transform phase: three tables\<close>


lemma fst_definition_cell: "fst (definition_cell env q w) = None"
  by (simp add: definition_cell_def)







lemma run_cells_all_pass:
  assumes "\<And>c w. c \<in> set cs \<Longrightarrow> fst (c w) = None"
  shows "fst (run_cells cs w) = None"
  using assms
proof (induction cs arbitrary: w)
  case Nil
  show ?case by simp
next
  case (Cons c cs)
  have "fst (c w) = None" using Cons.prems by simp
  then have "run_cells (c # cs) w = run_cells cs (snd (c w))" by (rule run_cells_pass)
  then show ?case using Cons.IH Cons.prems by simp
qed

lemma transform_phase_completes:
  assumes a1: "\<forall>l \<in> set lines. \<exists>vs. artist_song_session_args env l = Inr vs
        \<and> accepts env (Call q_insert_artist_song_session (Some vs))"
    and a2: "\<forall>l \<in> set lines. \<exists>vs. song_playlist_session_args env l = Inr vs
        \<and> accepts env (Call q_insert_song_playlist_session (Some vs))"
    and a3: "\<forall>l \<in> set lines. \<exists>vs. user_song_args env l = Inr vs
        \<and> accepts env (Call q_insert_user_song (Some vs))"
  shows "fst (transform_phase env (header # lines) w) = None"
proof -
  have l1: "fst (load_artist_song_session env (header # lines) w') = None" for w'
    unfolding load_artist_song_session_def
    using load_table_all_ok [where args=artist_song_session_args and env=env,
        OF a1 runs_insert_artist_song_session, where header=header and w=w'] by simp
  have l2: "fst (load_song_playlist_session env (header # lines) w') = None" for w'
    unfolding load_song_playlist_session_def
    using load_table_all_ok [where args=song_playlist_session_args and env=env,
        OF a2 runs_insert_song_playlist_session, where header=header and w=w'] by simp
  have l3: "fst (load_user_song env (header # lines) w') = None" for w'
    unfolding load_user_song_def
    using load_table_all_ok [where args=user_song_args and env=env,
        OF a3 runs_insert_user_song, where header=header and w=w'] by simp
  show ?thesis
    unfolding transform_phase_def
    by (rule run_cells_all_pass) (auto simp: l1 l2 l3 fst_definition_cell)
qed

lemma plain_transform_completes:
  "fst (transform_phase plain_env
        [header_row,
         [''Faithless'', ''Ava'', ''F'', ''4'', ''Robinson'', ''495.3073'', ''free'',
          ''New Haven'', ''338'', ''Music Matters'', ''50'']] w) = None"
  by (rule transform_phase_completes)
    (simp_all add: plain_args_artist_song_session plain_args_song_playlist_session
      plain_args_user_song accepts_plain_env)


section \<open>The queries: lookups by key\<close>

lemma run_stmt_selects:
  "run_stmt (Call q_select_artist_song_session ps) d = Inr (select_artist_song_session d, d)"
  "run_stmt (Call q_select_song_playlist_session ps) d = Inr (select_song_playlist_session d, d)"
  "run_stmt (Call q_select_user_song ps) d = Inr (select_user_song d, d)"
  "run_stmt (Call q_select_user_song_readme ps) d = Inr (select_user_song_readme d, d)"
  "run_stmt (Call q_select_question_2 ps) d = Inr (select_question_2 d, d)"
  by (simp_all add: run_stmt_def classify_selects)






section \<open>Partitions: upsert in clustering order\<close>

lemma keys_upsert: "set (map fst (upsert k v xs)) = insert k (set (map fst xs))"
proof (induction xs)
  case Nil
  show ?case by simp
next
  case (Cons x xs)
  obtain k' v' where x: "x = (k', v')" by (cases x)
  have "set (map fst (upsert k v xs)) = insert k (set (map fst xs))" by (rule Cons.IH)
  then show ?case
    unfolding x upsert.simps by (simp only: list.map list.set fst_conv split: if_splits) auto
qed

lemma sorted_upsert:
  "sorted_wrt (<) (map fst xs) \<Longrightarrow> sorted_wrt (<) (map fst (upsert k v xs))"
proof (induction xs)
  case Nil
  show ?case by simp
next
  case (Cons x xs)
  obtain k' v' where x: "x = (k', v')" by (cases x)
  from Cons.prems have below: "\<forall>y \<in> set xs. k' < fst y" and tail: "sorted_wrt (<) (map fst xs)"
    by (auto simp: x)
  show ?case
  proof (cases "k < k'")
    case True
    with Cons.prems below show ?thesis by (auto simp: x)
  next
    case False
    show ?thesis
    proof (cases "k = k'")
      case True
      with Cons.prems show ?thesis by (auto simp: x)
    next
      case ne: False
      with False have gt: "k' < k" by simp
      have "\<forall>y \<in> set (upsert k v xs). k' < fst y"
      proof
        fix y assume "y \<in> set (upsert k v xs)"
        then have "fst y \<in> set (map fst (upsert k v xs))" by simp
        then have "fst y \<in> insert k (set (map fst xs))"
          unfolding keys_upsert .
        with gt below show "k' < fst y" by auto
      qed
      with Cons.IH [OF tail] False ne show ?thesis by (simp add: x)
    qed
  qed
qed

lemma upsert_same: "upsert k v (upsert k v' xs) = upsert k v xs"
  by (induction xs) auto

lemma upsert_commute:
  "k \<noteq> k' \<Longrightarrow> upsert k v (upsert k' v' xs) = upsert k' v' (upsert k v xs)"
  by (induction xs) auto

lemma map_of_upsert: "map_of (upsert k v xs) = (map_of xs)(k \<mapsto> v)"
  by (induction xs) (auto simp: fun_eq_iff)

section \<open>Tables: rows at their primary key\<close>

lemma partition_of_put_row:
  "partition_of (put_row pk ck v t) pk' =
     (if pk' = pk then upsert ck v (partition_of t pk) else partition_of t pk')"
  by (simp add: put_row_def partition_of_def)

lemma partition_of_empty: "partition_of Map.empty pk = []"
  by (simp add: partition_of_def)

lemma put_row_same: "put_row pk ck v (put_row pk ck v' t) = put_row pk ck v t"
  by (rule ext) (simp add: put_row_def partition_of_def upsert_same)

lemma put_row_commute:
  assumes "(pk, ck) \<noteq> (pk', ck')"
  shows "put_row pk ck v (put_row pk' ck' v' t) = put_row pk' ck' v' (put_row pk ck v t)"
proof (rule ext)
  fix x
  show "put_row pk ck v (put_row pk' ck' v' t) x = put_row pk' ck' v' (put_row pk ck v t) x"
  proof (cases "pk = pk'")
    case True
    with assms have "ck \<noteq> ck'" by simp
    then show ?thesis
      using True by (simp add: put_row_def partition_of_def upsert_commute)
  next
    case False
    then show ?thesis
      by (auto simp: put_row_def partition_of_def)
  qed
qed

lemma clustered_empty: "clustered Map.empty"
  by (simp add: clustered_def partition_of_empty)

lemma clustered_put_row: "clustered t \<Longrightarrow> clustered (put_row pk ck v t)"
  by (simp add: clustered_def partition_of_put_row sorted_upsert)

lemma clustered_distinct: "clustered t \<Longrightarrow> distinct (map fst (partition_of t pk))"
  unfolding clustered_def using strict_sorted_iff by blast

section \<open>Every statement keeps the tables clustered\<close>

lemma clustered_insert_artist_song_session:
  "insert_artist_song_session vs d = Inr d' \<Longrightarrow> clustered_db d \<Longrightarrow> clustered_db d'"
  by (induction vs d rule: insert_artist_song_session.induct)
    (auto simp: clustered_db_def clustered_put_row)

lemma clustered_insert_song_playlist_session:
  "insert_song_playlist_session vs d = Inr d' \<Longrightarrow> clustered_db d \<Longrightarrow> clustered_db d'"
  by (induction vs d rule: insert_song_playlist_session.induct)
    (auto simp: clustered_db_def clustered_put_row)

lemma clustered_insert_user_song:
  "insert_user_song vs d = Inr d' \<Longrightarrow> clustered_db d \<Longrightarrow> clustered_db d'"
  by (induction vs d rule: insert_user_song.induct)
    (auto simp: clustered_db_def clustered_put_row)

lemma clustered_insert_question_2:
  "insert_question_2 vs d = Inr d' \<Longrightarrow> clustered_db d \<Longrightarrow> clustered_db d'"
  by (induction vs d rule: insert_question_2.induct)
    (auto simp: clustered_db_def clustered_put_row)

lemma clustered_run_stmt:
  assumes "run_stmt c d = Inr (res, d')" and "clustered_db d"
  shows "clustered_db d'"
proof (cases "classify (stmt c)")
  case InsertArtistSongSession
  with assms show ?thesis
    by (auto simp: run_stmt_def insert_result_def split: sum.splits
        dest: clustered_insert_artist_song_session)
next
  case InsertSongPlaylistSession
  with assms show ?thesis
    by (auto simp: run_stmt_def insert_result_def split: sum.splits
        dest: clustered_insert_song_playlist_session)
next
  case InsertUserSong
  with assms show ?thesis
    by (auto simp: run_stmt_def insert_result_def split: sum.splits
        dest: clustered_insert_user_song)
next
  case InsertQuestion2
  with assms show ?thesis
    by (auto simp: run_stmt_def insert_result_def split: sum.splits
        dest: clustered_insert_question_2)
next
  case DropArtistSongSession
  with assms show ?thesis by (auto simp: run_stmt_def clustered_db_def clustered_empty)
next
  case DropSongPlaylistSession
  with assms show ?thesis by (auto simp: run_stmt_def clustered_db_def clustered_empty)
next
  case DropUserSong
  with assms show ?thesis by (auto simp: run_stmt_def clustered_db_def clustered_empty)
qed (use assms in \<open>auto simp: run_stmt_def\<close>)

lemma clustered_execute:
  assumes "clustered_db (db w)"
  shows "clustered_db (db (snd (execute env c w)))"
proof (cases "accepts env c")
  case False
  with assms show ?thesis by (simp add: execute_refused db_emit)
next
  case True
  show ?thesis
  proof (cases "run_stmt c (db w)")
    case (Inl e)
    with True assms show ?thesis by (simp add: execute_def Let_def db_emit)
  next
    case (Inr r)
    obtain res d' where r: "r = (res, d')" by (cases r)
    from Inr r assms have "clustered_db d'" by (auto dest: clustered_run_stmt)
    with True Inr r show ?thesis by (simp add: execute_accepted)
  qed
qed

lemma insert_loop_invariant:
  assumes "P w" and step: "\<And>vs w. P w \<Longrightarrow> P (snd (execute env (Call q (Some vs)) w))"
  shows "P (snd (insert_loop env q args lines w))"
  using assms(1)
proof (induction lines arbitrary: w)
  case Nil
  then show ?case by simp
next
  case (Cons line rest)
  show ?case
  proof (cases "args env line")
    case (Inl e)
    with Cons.prems show ?thesis by simp
  next
    case args: (Inr vs)
    obtain r w' where ex: "execute env (Call q (Some vs)) w = (r, w')"
      by (cases "execute env (Call q (Some vs)) w")
    from step [OF Cons.prems, of vs] ex have p: "P w'" by simp
    show ?thesis
    proof (cases r)
      case (Inl e)
      with args ex p show ?thesis by simp
    next
      case (Inr res)
      with args ex Cons.IH [OF p] show ?thesis by simp
    qed
  qed
qed

lemma clustered_load_table:
  assumes "clustered_db (db w)"
  shows "clustered_db (db (snd (load_table env q args file w)))"
proof (cases "file")
  case Nil
  with assms show ?thesis by (simp add: load_table_def Let_def db_emit)
next
  case (Cons header lines)
  have "clustered_db (db (snd (insert_loop env q args lines (emit (FileOpen new_datafile) w))))"
    by (rule insert_loop_invariant [where P="\<lambda>w. clustered_db (db w)"])
      (simp_all add: db_emit assms clustered_execute)
  then show ?thesis unfolding Cons load_table_header by (simp add: db_emit)
qed


lemma run_cells_invariant:
  assumes "P w" and "\<And>c w. c \<in> set cs \<Longrightarrow> P w \<Longrightarrow> P (snd (c w))"
  shows "P (snd (run_cells cs w))"
  using assms
proof (induction cs arbitrary: w)
  case Nil
  then show ?case by simp
next
  case (Cons c cs)
  have p: "P (snd (c w))" using Cons.prems by simp
  show ?case
  proof (cases "fst (c w) = None")
    case True
    then have "run_cells (c # cs) w = run_cells cs (snd (c w))" by (rule run_cells_pass)
    with Cons.IH [OF p] Cons.prems(2) show ?thesis by simp
  next
    case False
    then have "run_cells (c # cs) w = c w" by (rule run_cells_raise)
    with p show ?thesis by simp
  qed
qed


lemma clustered_load_phase:
  assumes "clustered_db (db w)"
  shows "clustered_db (db (snd (load_phase env file w)))"
  unfolding load_phase_def
  by (rule run_cells_invariant [where P="\<lambda>w. clustered_db (db w)", OF assms])
    (auto simp: load_artist_song_session_def load_song_playlist_session_def
      load_user_song_def clustered_load_table)


section \<open>Writing the same rows twice\<close>

lemma foldl_put_absorb:
  fixes pk :: "'r \<Rightarrow> 'pk" and ck :: "'r \<Rightarrow> 'ck::linorder" and vl :: "'r \<Rightarrow> 'v"
  defines "f \<equiv> \<lambda>t r. put_row (pk r) (ck r) (vl r) t"
  shows "foldl f (f t x) rs =
           (if (pk x, ck x) \<in> set (map (\<lambda>r. (pk r, ck r)) rs) then foldl f t rs
            else f (foldl f t rs) x)"
proof (induction rs arbitrary: t)
  case Nil
  show ?case by simp
next
  case (Cons y rs)
  show ?case
  proof (cases "(pk y, ck y) = (pk x, ck x)")
    case True
    then have "f (f t x) y = f t y"
      unfolding f_def by (simp add: put_row_same)
    with True show ?thesis by simp
  next
    case False
    then have "f (f t x) y = f (f t y) x"
      unfolding f_def using put_row_commute [of "pk y" "ck y" "pk x" "ck x"] by simp
    with False Cons.IH [of "f t y"] show ?thesis by auto
  qed
qed

lemma foldl_put_twice:
  fixes pk :: "'r \<Rightarrow> 'pk" and ck :: "'r \<Rightarrow> 'ck::linorder" and vl :: "'r \<Rightarrow> 'v"
  defines "f \<equiv> \<lambda>t r. put_row (pk r) (ck r) (vl r) t"
  shows "foldl f (foldl f t rs) rs = foldl f t rs"
proof (induction rs arbitrary: t)
  case Nil
  show ?case by simp
next
  case (Cons y rs)
  let ?D = "foldl f (f t y) rs"
  have absorb: "foldl f (f s x) rs =
           (if (pk x, ck x) \<in> set (map (\<lambda>r. (pk r, ck r)) rs) then foldl f s rs
            else f (foldl f s rs) x)" for s x
    unfolding f_def by (rule foldl_put_absorb)
  have again: "foldl f ?D rs = ?D" by (rule Cons.IH)
  have same: "f (f s y) y = f s y" for s
    unfolding f_def by (simp add: put_row_same)
  show ?case
  proof (cases "(pk y, ck y) \<in> set (map (\<lambda>r. (pk r, ck r)) rs)")
    case True
    then have "foldl f (f ?D y) rs = foldl f ?D rs" by (simp add: absorb)
    with again show ?thesis by simp
  next
    case False
    then have d: "?D = f (foldl f t rs) y" by (simp add: absorb)
    from False have "foldl f (f ?D y) rs = f (foldl f ?D rs) y" by (simp add: absorb)
    also have "\<dots> = f ?D y" by (simp only: again)
    also have "\<dots> = ?D" by (subst (1 2) d) (rule same)
    finally show ?thesis by simp
  qed
qed

section \<open>What the load loops leave in the store\<close>

lemma run_inserts_Nil: "run_inserts q [] d = d"
  by (simp add: run_inserts_def)

lemma run_inserts_Cons:
  "run_inserts q (vs # vss) d = run_inserts q vss (store_after (Call q (Some vs)) d)"
  by (simp add: run_inserts_def)

lemma insert_loop_db:
  assumes runs: "\<And>l vs d. args env l = Inr vs
      \<Longrightarrow> \<exists>res d'. run_stmt (Call q (Some vs)) d = Inr (res, d')"
  shows "db (snd (insert_loop env q args lines w))
           = run_inserts q (inserted env q args lines) (db w)
         \<and> (fst (insert_loop env q args lines w) = None
              \<longleftrightarrow> length (inserted env q args lines) = length lines)"
proof (induction lines arbitrary: w)
  case Nil
  show ?case by (simp add: run_inserts_Nil)
next
  case (Cons line rest)
  show ?case
  proof (cases "args env line")
    case (Inl e)
    then show ?thesis by (simp add: run_inserts_Nil)
  next
    case args: (Inr vs)
    show ?thesis
    proof (cases "accepts env (Call q (Some vs))")
      case False
      then have "execute env (Call q (Some vs)) w
                   = (Inl InvalidRequest, emit (Execute (Call q (Some vs))) w)"
        by (rule execute_refused)
      with args False show ?thesis by (simp add: run_inserts_Nil db_emit)
    next
      case True
      from runs [OF args, of "db w"] obtain res d' where
        run: "run_stmt (Call q (Some vs)) (db w) = Inr (res, d')" by (elim exE)
      let ?w' = "(emit (Execute (Call q (Some vs))) w)\<lparr>db := d'\<rparr>"
      have step: "insert_loop env q args (line # rest) w = insert_loop env q args rest ?w'"
        using insert_loop_step_ok [where args=args and env=env and line=line, OF args]
          execute_accepted [OF True run] by simp
      have d: "store_after (Call q (Some vs)) (db w) = db ?w'"
        using run by (simp add: store_after_def)
      show ?thesis
        unfolding step using Cons.IH [of ?w'] args True
        by (simp add: run_inserts_Cons d)
    qed
  qed
qed

lemma load_table_db:
  assumes runs: "\<And>l vs d. args env l = Inr vs
      \<Longrightarrow> \<exists>res d'. run_stmt (Call q (Some vs)) d = Inr (res, d')"
  shows "db (snd (load_table env q args flat w))
           = run_inserts q (inserted env q args (tl flat)) (db w)"
    and "fst (load_table env q args flat w) = None
           \<longleftrightarrow> flat \<noteq> [] \<and> length (inserted env q args (tl flat)) = length (tl flat)"
proof -
  note loop = insert_loop_db [where args=args and env=env and q=q, OF runs]
  show "db (snd (load_table env q args flat w))
           = run_inserts q (inserted env q args (tl flat)) (db w)"
  proof (cases flat)
    case Nil
    then show ?thesis by (simp add: load_table_def Let_def db_emit run_inserts_Nil)
  next
    case (Cons header lines)
    show ?thesis
      unfolding Cons load_table_header
      using loop [where lines=lines and w="emit (FileOpen new_datafile) w"] by (simp add: db_emit)
  qed
  show "fst (load_table env q args flat w) = None
           \<longleftrightarrow> flat \<noteq> [] \<and> length (inserted env q args (tl flat)) = length (tl flat)"
  proof (cases flat)
    case Nil
    then show ?thesis by (simp add: load_table_def Let_def)
  next
    case (Cons header lines)
    show ?thesis
      unfolding Cons load_table_header
      using loop [where lines=lines and w="emit (FileOpen new_datafile) w"] by simp
  qed
qed

lemma inserted_args:
  "vs \<in> set (inserted env q args lines) \<Longrightarrow> \<exists>l. args env l = Inr vs"
proof (induction lines)
  case Nil
  then show ?case by simp
next
  case (Cons line rest)
  then show ?case
    by (cases "args env line") (auto split: if_splits)
qed

text \<open>The tuples of values as typed rows.\<close>

lemma typed_rows:
  assumes "\<And>vs. vs \<in> set vss \<Longrightarrow> \<exists>r. vs = enc r"
  shows "\<exists>rs. vss = map enc rs"
  using assms
proof (induction vss)
  case Nil
  show ?case by simp
next
  case (Cons vs vss)
  from Cons.prems obtain r where r: "vs = enc r" by auto
  from Cons.IH Cons.prems obtain rs where "vss = map enc rs" by auto
  with r have "vs # vss = map enc (r # rs)" by simp
  then show ?case by (rule exI)
qed

lemma store_after_inserts:
  "store_after (Call q_insert_artist_song_session
       (Some [CInt sid, CInt item, CText a, CText s, CDouble l])) d
     = d\<lparr>artist_song_session := put_row sid item (a, s, l) (artist_song_session d)\<rparr>"
  "store_after (Call q_insert_song_playlist_session
       (Some [CInt uid, CInt sid, CInt item, CText a, CText s, CText fname, CText lname])) d
     = d\<lparr>song_playlist_session :=
           put_row (uid, sid) item (a, s, fname, lname) (song_playlist_session d)\<rparr>"
  "store_after (Call q_insert_user_song (Some [CText s, CInt uid, CText fname, CText lname])) d
     = d\<lparr>user_song := put_row s uid (fname, lname) (user_song d)\<rparr>"
  "store_after (Call q_insert_question_2
       (Some [CText a, CText s, CInt sid, CInt item, CInt uid, CText fname, CText lname])) d
     = d\<lparr>question_2 := put_row uid (sid, item) (a, s, fname, lname) (question_2 d)\<rparr>"
  by (simp_all add: store_after_def run_stmt_def classify_inserts insert_result_def bound_def)

lemma run_inserts_artist_song_session:
  "run_inserts q_insert_artist_song_session
       (map (\<lambda>(sid, item, a, s, l). [CInt sid, CInt item, CText a, CText s, CDouble l]) rs) d
     = d\<lparr>artist_song_session :=
           foldl (\<lambda>t r. put_row (fst r) (fst (snd r)) (snd (snd r)) t) (artist_song_session d) rs\<rparr>"
  by (induction rs arbitrary: d)
    (auto simp: run_inserts_Nil run_inserts_Cons store_after_inserts)

lemma run_inserts_song_playlist_session:
  "run_inserts q_insert_song_playlist_session
       (map (\<lambda>(uid, sid, item, a, s, fname, lname).
              [CInt uid, CInt sid, CInt item, CText a, CText s, CText fname, CText lname]) rs) d
     = d\<lparr>song_playlist_session :=
           foldl (\<lambda>t r. put_row (fst r, fst (snd r)) (fst (snd (snd r))) (snd (snd (snd r))) t)
             (song_playlist_session d) rs\<rparr>"
  by (induction rs arbitrary: d)
    (auto simp: run_inserts_Nil run_inserts_Cons store_after_inserts)

lemma run_inserts_user_song:
  "run_inserts q_insert_user_song
       (map (\<lambda>(s, uid, fname, lname). [CText s, CInt uid, CText fname, CText lname]) rs) d
     = d\<lparr>user_song :=
           foldl (\<lambda>t r. put_row (fst r) (fst (snd r)) (snd (snd r)) t) (user_song d) rs\<rparr>"
  by (induction rs arbitrary: d)
    (auto simp: run_inserts_Nil run_inserts_Cons store_after_inserts)

lemma run_inserts_question_2:
  "run_inserts q_insert_question_2
       (map (\<lambda>(uid, sid, item, a, s, fname, lname).
              [CText a, CText s, CInt sid, CInt item, CInt uid, CText fname, CText lname]) rs) d
     = d\<lparr>question_2 :=
           foldl (\<lambda>t r. put_row (fst r) (fst (snd r), fst (snd (snd r))) (snd (snd (snd r))) t)
             (question_2 d) rs\<rparr>"
  by (induction rs arbitrary: d)
    (auto simp: run_inserts_Nil run_inserts_Cons store_after_inserts)

section \<open>Loading the same file twice\<close>

lemma load_phase_db:
  fixes env :: "'f env"
  defines "v1 \<equiv> inserted env q_insert_artist_song_session artist_song_session_args"
    and "v2 \<equiv> inserted env q_insert_song_playlist_session song_playlist_session_args"
    and "v3 \<equiv> inserted env q_insert_user_song user_song_args"
  shows "db (snd (load_phase env file w)) =
    (if file \<noteq> [] \<and> length (v1 (tl file)) = length (tl file)
     then (if length (v2 (tl file)) = length (tl file)
           then run_inserts q_insert_user_song (v3 (tl file))
                  (run_inserts q_insert_song_playlist_session (v2 (tl file))
                     (run_inserts q_insert_artist_song_session (v1 (tl file)) (db w)))
           else run_inserts q_insert_song_playlist_session (v2 (tl file))
                  (run_inserts q_insert_artist_song_session (v1 (tl file)) (db w)))
     else run_inserts q_insert_artist_song_session (v1 (tl file)) (db w))"
proof -
  let ?l1 = "load_artist_song_session env file"
  let ?l2 = "load_song_playlist_session env file"
  let ?l3 = "load_user_song env file"
  note t1 = load_table_db [where args=artist_song_session_args and env=env
      and q=q_insert_artist_song_session, OF runs_insert_artist_song_session,
      folded load_artist_song_session_def v1_def]
  note t2 = load_table_db [where args=song_playlist_session_args and env=env
      and q=q_insert_song_playlist_session, OF runs_insert_song_playlist_session,
      folded load_song_playlist_session_def v2_def]
  note t3 = load_table_db [where args=user_song_args and env=env
      and q=q_insert_user_song, OF runs_insert_user_song,
      folded load_user_song_def v3_def]
  show ?thesis
  proof (cases "fst (?l1 w) = None")
    case False
    then have "load_phase env file w = ?l1 w"
      unfolding load_phase_def by (rule run_cells_raise)
    with False show ?thesis using t1 [where flat="file" and w=w] by auto
  next
    case a: True
    let ?w1 = "snd (?l1 w)"
    have p1: "load_phase env file w = run_cells [?l2, ?l3] ?w1"
      unfolding load_phase_def using a by (rule run_cells_pass)
    show ?thesis
    proof (cases "fst (?l2 ?w1) = None")
      case False
      then have "run_cells [?l2, ?l3] ?w1 = ?l2 ?w1" by (rule run_cells_raise)
      with False a show ?thesis
        unfolding p1 using t1 [where flat="file" and w=w] t2 [where flat="file" and w="?w1"]
        by auto
    next
      case b: True
      let ?w2 = "snd (?l2 ?w1)"
      have "run_cells [?l2, ?l3] ?w1 = run_cells [?l3] ?w2"
        using b by (rule run_cells_pass)
      then have "snd (load_phase env file w) = snd (?l3 ?w2)"
        unfolding p1 by (simp only: run_cells_single)
      with a b show ?thesis
        using t1 [where flat="file" and w=w] t2 [where flat="file" and w="?w1"]
          t3 [where flat="file" and w="?w2"] by auto
    qed
  qed
qed

lemma load_effects:
  fixes env :: "'f env"
  shows "\<exists>T1. (\<forall>d. run_inserts q_insert_artist_song_session
            (inserted env q_insert_artist_song_session artist_song_session_args lines) d
          = d\<lparr>artist_song_session := T1 (artist_song_session d)\<rparr>)
          \<and> (\<forall>t. T1 (T1 t) = T1 t)"
    and "\<exists>T2. (\<forall>d. run_inserts q_insert_song_playlist_session
            (inserted env q_insert_song_playlist_session song_playlist_session_args lines) d
          = d\<lparr>song_playlist_session := T2 (song_playlist_session d)\<rparr>)
          \<and> (\<forall>t. T2 (T2 t) = T2 t)"
    and "\<exists>T3. (\<forall>d. run_inserts q_insert_user_song
            (inserted env q_insert_user_song user_song_args lines) d
          = d\<lparr>user_song := T3 (user_song d)\<rparr>)
          \<and> (\<forall>t. T3 (T3 t) = T3 t)"
proof -
  have "\<exists>rs. inserted env q_insert_artist_song_session artist_song_session_args lines
          = map (\<lambda>(sid, item, a, s, l). [CInt sid, CInt item, CText a, CText s, CDouble l]) rs"
  proof (rule typed_rows)
    fix vs assume "vs \<in> set (inserted env q_insert_artist_song_session artist_song_session_args lines)"
    then obtain l where "artist_song_session_args env l = Inr vs"
      using inserted_args by blast
    from artist_song_session_args_shape [OF this]
    show "\<exists>r. vs = (case r of (sid, item, a, s, l) \<Rightarrow> [CInt sid, CInt item, CText a, CText s, CDouble l])"
      by auto
  qed
  then obtain rs where rs: "inserted env q_insert_artist_song_session artist_song_session_args lines
          = map (\<lambda>(sid, item, a, s, l). [CInt sid, CInt item, CText a, CText s, CDouble l]) rs"
    by (elim exE)
  show "\<exists>T1. (\<forall>d. run_inserts q_insert_artist_song_session
            (inserted env q_insert_artist_song_session artist_song_session_args lines) d
          = d\<lparr>artist_song_session := T1 (artist_song_session d)\<rparr>)
          \<and> (\<forall>t. T1 (T1 t) = T1 t)"
    unfolding rs run_inserts_artist_song_session
    by (rule exI [of _ "\<lambda>t. foldl (\<lambda>t r. put_row (fst r) (fst (snd r)) (snd (snd r)) t) t rs"])
      (simp add: foldl_put_twice)
next
  have "\<exists>rs. inserted env q_insert_song_playlist_session song_playlist_session_args lines
          = map (\<lambda>(uid, sid, item, a, s, fname, lname).
              [CInt uid, CInt sid, CInt item, CText a, CText s, CText fname, CText lname]) rs"
  proof (rule typed_rows)
    fix vs assume "vs \<in> set (inserted env q_insert_song_playlist_session song_playlist_session_args lines)"
    then obtain l where "song_playlist_session_args env l = Inr vs"
      using inserted_args by blast
    from song_playlist_session_args_shape [OF this]
    show "\<exists>r. vs = (case r of (uid, sid, item, a, s, fname, lname) \<Rightarrow>
              [CInt uid, CInt sid, CInt item, CText a, CText s, CText fname, CText lname])"
      by auto
  qed
  then obtain rs where rs: "inserted env q_insert_song_playlist_session song_playlist_session_args lines
          = map (\<lambda>(uid, sid, item, a, s, fname, lname).
              [CInt uid, CInt sid, CInt item, CText a, CText s, CText fname, CText lname]) rs"
    by (elim exE)
  show "\<exists>T2. (\<forall>d. run_inserts q_insert_song_playlist_session
            (inserted env q_insert_song_playlist_session song_playlist_session_args lines) d
          = d\<lparr>song_playlist_session := T2 (song_playlist_session d)\<rparr>)
          \<and> (\<forall>t. T2 (T2 t) = T2 t)"
    unfolding rs run_inserts_song_playlist_session
    by (rule exI [of _ "\<lambda>t. foldl (\<lambda>t r. put_row (fst r, fst (snd r)) (fst (snd (snd r)))
                                   (snd (snd (snd r))) t) t rs"])
      (simp add: foldl_put_twice)
next
  have "\<exists>rs. inserted env q_insert_user_song user_song_args lines
          = map (\<lambda>(s, uid, fname, lname). [CText s, CInt uid, CText fname, CText lname]) rs"
  proof (rule typed_rows)
    fix vs assume "vs \<in> set (inserted env q_insert_user_song user_song_args lines)"
    then obtain l where "user_song_args env l = Inr vs"
      using inserted_args by blast
    from user_song_args_shape [OF this]
    show "\<exists>r. vs = (case r of (s, uid, fname, lname) \<Rightarrow>
              [CText s, CInt uid, CText fname, CText lname])"
      by auto
  qed
  then obtain rs where rs: "inserted env q_insert_user_song user_song_args lines
          = map (\<lambda>(s, uid, fname, lname). [CText s, CInt uid, CText fname, CText lname]) rs"
    by (elim exE)
  show "\<exists>T3. (\<forall>d. run_inserts q_insert_user_song
            (inserted env q_insert_user_song user_song_args lines) d
          = d\<lparr>user_song := T3 (user_song d)\<rparr>)
          \<and> (\<forall>t. T3 (T3 t) = T3 t)"
    unfolding rs run_inserts_user_song
    by (rule exI [of _ "\<lambda>t. foldl (\<lambda>t r. put_row (fst r) (fst (snd r)) (snd (snd r)) t) t rs"])
      (simp add: foldl_put_twice)
qed

text \<open>
  C9. Running the three insert loops a second time over the same file leaves the store
  as the first run left it: every record is written at the same primary key with the
  same values, and a run that stops at a record that raises stops at the same record
  again.
\<close>

theorem load_phase_idempotent:
  "db (snd (load_phase env file (snd (load_phase env file w)))) = db (snd (load_phase env file w))"
proof -
  from load_effects(1) [of env "tl file"] obtain T1 where
    e1: "\<And>d. run_inserts q_insert_artist_song_session
            (inserted env q_insert_artist_song_session artist_song_session_args (tl file)) d
          = d\<lparr>artist_song_session := T1 (artist_song_session d)\<rparr>"
    and i1: "\<And>t. T1 (T1 t) = T1 t"
    by (elim exE conjE) simp
  from load_effects(2) [of env "tl file"] obtain T2 where
    e2: "\<And>d. run_inserts q_insert_song_playlist_session
            (inserted env q_insert_song_playlist_session song_playlist_session_args (tl file)) d
          = d\<lparr>song_playlist_session := T2 (song_playlist_session d)\<rparr>"
    and i2: "\<And>t. T2 (T2 t) = T2 t"
    by (elim exE conjE) simp
  from load_effects(3) [of env "tl file"] obtain T3 where
    e3: "\<And>d. run_inserts q_insert_user_song
            (inserted env q_insert_user_song user_song_args (tl file)) d
          = d\<lparr>user_song := T3 (user_song d)\<rparr>"
    and i3: "\<And>t. T3 (T3 t) = T3 t"
    by (elim exE conjE) simp
  show ?thesis
    unfolding load_phase_db e1 e2 e3 by (simp add: i1 i2 i3)
qed

section \<open>Query 2: rows in clustering order\<close>









section \<open>The table user\_song: one row per song and user\<close>

lemma user_song_after_insert:
  "user_song (store_after (Call q_insert_user_song (Some ws)) d)
     = (case insert_user_song ws d of Inl e \<Rightarrow> user_song d | Inr d' \<Rightarrow> user_song d')"
  by (simp add: store_after_def run_stmt_def classify_inserts insert_result_def bound_def
      split: sum.splits)

lemma clustered_user_song_insert:
  assumes "clustered (user_song d)"
  shows "clustered (user_song (store_after (Call q_insert_user_song (Some ws)) d))"
  unfolding user_song_after_insert using assms
  by (induction ws d rule: insert_user_song.induct) (simp_all add: clustered_put_row)

lemma clustered_user_song_inserts:
  assumes "clustered (user_song d)"
  shows "clustered (user_song (run_inserts q_insert_user_song vss d))"
  using assms
  by (induction vss arbitrary: d)
    (simp_all add: run_inserts_Nil run_inserts_Cons clustered_user_song_insert)

lemma other_key_user_song_insert:
  assumes "take 2 ws \<noteq> [CText s, CInt u]"
  shows "map_of (partition_of (user_song (store_after (Call q_insert_user_song (Some ws)) d)) s) u
           = map_of (partition_of (user_song d) s) u"
  unfolding user_song_after_insert using assms
  by (induction ws d rule: insert_user_song.induct)
    (auto simp: partition_of_put_row map_of_upsert)

lemma other_key_user_song_inserts:
  assumes "\<forall>ws \<in> set wss. take 2 ws \<noteq> [CText s, CInt u]"
  shows "map_of (partition_of (user_song (run_inserts q_insert_user_song wss d)) s) u
           = map_of (partition_of (user_song d) s) u"
  using assms
  by (induction wss arbitrary: d)
    (simp_all add: run_inserts_Nil run_inserts_Cons other_key_user_song_insert)

lemma run_inserts_append:
  "run_inserts q (vss @ wss) d = run_inserts q wss (run_inserts q vss d)"
  by (simp add: run_inserts_def)

lemma user_id_column_readme:
  "map (\<lambda>r. attr r ''user_id'') (select_user_song_readme d)
     = map (\<lambda>u. Inr (CInt u)) (map fst (partition_of (user_song d) ''All Hands Against His Own''))"
  by (simp add: select_user_song_readme_def attr_def split_def)

text \<open>
  C10. After any sequence of inserts into a clustered \<open>user_song\<close> table (the empty table
  is one), each partition holds every user id at most once, so the table has at most one
  row per (song, user_id); the row of a (song, user_id) pair carries the names of the last
  insert made for that pair; and query 3 returns one row per user id of the song: the
  user ids listed by the README's form of the query, which selects that column, are
  distinct, and the notebook's form returns the same number of rows.
\<close>

theorem user_song_one_row_per_key:
  assumes "clustered (user_song d)"
  shows "distinct (map fst (partition_of (user_song (run_inserts q_insert_user_song vss d)) s))
    \<and> ((\<forall>ws \<in> set wss. take 2 ws \<noteq> [CText s, CInt u]) \<longrightarrow>
         map_of (partition_of (user_song
            (run_inserts q_insert_user_song
               (vss @ [CText s, CInt u, CText fname, CText lname] # wss) d)) s) u
           = Some (fname, lname))
    \<and> distinct (map (\<lambda>r. attr r ''user_id'')
         (select_user_song_readme (run_inserts q_insert_user_song vss d)))
    \<and> length (select_user_song (run_inserts q_insert_user_song vss d))
         = length (select_user_song_readme (run_inserts q_insert_user_song vss d))"
proof (intro conjI impI)
  let ?d = "run_inserts q_insert_user_song vss d"
  have c: "clustered (user_song ?d)"
    using assms by (rule clustered_user_song_inserts)
  then show "distinct (map fst (partition_of (user_song ?d) s))"
    by (rule clustered_distinct)
  from c have "distinct (map fst (partition_of (user_song ?d) ''All Hands Against His Own''))"
    by (rule clustered_distinct)
  then show "distinct (map (\<lambda>r. attr r ''user_id'') (select_user_song_readme ?d))"
    unfolding user_id_column_readme by (simp add: distinct_map inj_on_def)
  show "length (select_user_song ?d) = length (select_user_song_readme ?d)"
    by (simp add: select_user_song_def select_user_song_readme_def)
next
  assume later: "\<forall>ws \<in> set wss. take 2 ws \<noteq> [CText s, CInt u]"
  let ?x = "[CText s, CInt u, CText fname, CText lname]"
  let ?d1 = "run_inserts q_insert_user_song vss d"
  let ?d2 = "store_after (Call q_insert_user_song (Some ?x)) ?d1"
  have split: "run_inserts q_insert_user_song (vss @ ?x # wss) d
                 = run_inserts q_insert_user_song wss ?d2"
    by (simp add: run_inserts_append run_inserts_Cons)
  have "map_of (partition_of (user_song ?d2) s) u = Some (fname, lname)"
    by (simp add: store_after_inserts partition_of_put_row map_of_upsert)
  then show "map_of (partition_of (user_song
            (run_inserts q_insert_user_song (vss @ ?x # wss) d)) s) u = Some (fname, lname)"
    unfolding split other_key_user_song_inserts [OF later] .
qed

theorem user_song_one_row_per_key_witness:
  "map_of (partition_of (user_song
      (run_inserts q_insert_user_song
         [[CText ''All Hands Against His Own'', CInt 95, CText ''Sara'', CText ''Johnson''],
          [CText ''All Hands Against His Own'', CInt 95, CText ''Sarah'', CText ''Jonson''],
          [CText ''All Hands Against His Own'', CInt 29, CText ''Jacqueline'', CText ''Lynch'']]
         (empty_db :: (int \<times> nat) db))) ''All Hands Against His Own'') 95
     = Some (''Sarah'', ''Jonson'')
   \<and> select_user_song_readme
        (run_inserts q_insert_user_song
         [[CText ''All Hands Against His Own'', CInt 95, CText ''Sara'', CText ''Johnson''],
          [CText ''All Hands Against His Own'', CInt 95, CText ''Sarah'', CText ''Jonson''],
          [CText ''All Hands Against His Own'', CInt 29, CText ''Jacqueline'', CText ''Lynch'']]
         (empty_db :: (int \<times> nat) db))
     = [[(''user_id'', CInt 29), (''first_name'', CText ''Jacqueline''),
         (''last_name'', CText ''Lynch'')],
        [(''user_id'', CInt 95), (''first_name'', CText ''Sarah''),
         (''last_name'', CText ''Jonson'')]]"
proof -
  have c: "clustered (user_song (empty_db :: (int \<times> nat) db))"
    by (simp add: empty_db_def clustered_empty)
  note t = user_song_one_row_per_key [OF c,
      of "[[CText ''All Hands Against His Own'', CInt 95, CText ''Sara'', CText ''Johnson'']]"
         "''All Hands Against His Own''"
         "[[CText ''All Hands Against His Own'', CInt 29, CText ''Jacqueline'', CText ''Lynch'']]"
         95 "''Sarah''" "''Jonson''"]
  have e: "select_user_song_readme
        (run_inserts q_insert_user_song
         [[CText ''All Hands Against His Own'', CInt 95, CText ''Sara'', CText ''Johnson''],
          [CText ''All Hands Against His Own'', CInt 95, CText ''Sarah'', CText ''Jonson''],
          [CText ''All Hands Against His Own'', CInt 29, CText ''Jacqueline'', CText ''Lynch'']]
         (empty_db :: (int \<times> nat) db))
     = [[(''user_id'', CInt 29), (''first_name'', CText ''Jacqueline''),
         (''last_name'', CText ''Lynch'')],
        [(''user_id'', CInt 95), (''first_name'', CText ''Sarah''),
         (''last_name'', CText ''Jonson'')]]"
    by (simp add: run_inserts_Cons run_inserts_Nil store_after_inserts empty_db_def
        select_user_song_readme_def partition_of_put_row partition_of_empty)
  from t e show ?thesis by simp
qed

section \<open>The two tables for question 2\<close>

lemma question_2_args_agree:
  "question_2_args env l = Inr vs \<Longrightarrow>
     \<exists>a s sid item uid fname lname.
        vs = [CText a, CText s, CInt sid, CInt item, CInt uid, CText fname, CText lname]
        \<and> song_playlist_session_args env l
            = Inr [CInt uid, CInt sid, CInt item, CText a, CText s, CText fname, CText lname]"
  by (auto simp: question_2_args_def song_playlist_session_args_def ebind_def
      split: sum.splits)

lemma question_2_args_fail:
  "question_2_args env l = Inl e \<Longrightarrow> \<exists>e'. song_playlist_session_args env l = Inl e'"
  by (auto simp: question_2_args_def song_playlist_session_args_def ebind_def get_def
      split: sum.splits if_splits)

lemma inserted_agree:
  assumes agree: "\<forall>a s sid item uid fname lname.
      accepts env (Call q_insert_question_2
         (Some [CText a, CText s, CInt sid, CInt item, CInt uid, CText fname, CText lname]))
      = accepts env (Call q_insert_song_playlist_session
         (Some [CInt uid, CInt sid, CInt item, CText a, CText s, CText fname, CText lname]))"
  shows "\<exists>rs. inserted env q_insert_question_2 question_2_args lines
            = map (\<lambda>(uid, sid, item, a, s, fname, lname).
                [CText a, CText s, CInt sid, CInt item, CInt uid, CText fname, CText lname]) rs
          \<and> inserted env q_insert_song_playlist_session song_playlist_session_args lines
            = map (\<lambda>(uid, sid, item, a, s, fname, lname).
                [CInt uid, CInt sid, CInt item, CText a, CText s, CText fname, CText lname]) rs"
proof (induction lines)
  case Nil
  show ?case by (rule exI [of _ "[]"]) simp
next
  case (Cons line rest)
  from Cons.IH obtain rs where
    r1: "inserted env q_insert_question_2 question_2_args rest
            = map (\<lambda>(uid, sid, item, a, s, fname, lname).
                [CText a, CText s, CInt sid, CInt item, CInt uid, CText fname, CText lname]) rs"
    and r2: "inserted env q_insert_song_playlist_session song_playlist_session_args rest
            = map (\<lambda>(uid, sid, item, a, s, fname, lname).
                [CInt uid, CInt sid, CInt item, CText a, CText s, CText fname, CText lname]) rs"
    by (elim exE conjE)
  show ?case
  proof (cases "question_2_args env line")
    case (Inl e)
    from question_2_args_fail [OF Inl] obtain e' where
      "song_playlist_session_args env line = Inl e'" by (elim exE)
    with Inl show ?thesis by (intro exI [of _ "[]"]) simp
  next
    case (Inr vs)
    from question_2_args_agree [OF Inr] obtain a s sid item uid fname lname where
      vs: "vs = [CText a, CText s, CInt sid, CInt item, CInt uid, CText fname, CText lname]"
      and sp: "song_playlist_session_args env line
            = Inr [CInt uid, CInt sid, CInt item, CText a, CText s, CText fname, CText lname]"
      by (elim exE conjE)
    show ?thesis
    proof (cases "accepts env (Call q_insert_question_2 (Some vs))")
      case False
      with agree vs have "\<not> accepts env (Call q_insert_song_playlist_session
         (Some [CInt uid, CInt sid, CInt item, CText a, CText s, CText fname, CText lname]))"
        by simp
      with False Inr sp show ?thesis by (intro exI [of _ "[]"]) simp
    next
      case True
      with agree vs have "accepts env (Call q_insert_song_playlist_session
         (Some [CInt uid, CInt sid, CInt item, CText a, CText s, CText fname, CText lname]))"
        by simp
      with True Inr sp vs r1 r2 show ?thesis
        by (intro exI [of _ "(uid, sid, item, a, s, fname, lname) # rs"]) simp
    qed
  qed
qed

text \<open>
  The rows of one session inside a partition of \<open>question_2\<close>, with the session id
  dropped from the clustering key.
\<close>

lemma upsert_front:
  assumes "\<forall>y \<in> set ys. k < fst y"
  shows "upsert k v ys = (k, v) # ys"
  using assms by (cases ys) auto

lemma session_rows_upsert:
  fixes xs :: "((int \<times> int) \<times> 'v) list"
  assumes "sorted_wrt (<) (map fst xs)"
  shows "map (\<lambda>r. (snd (fst r), snd r)) (filter (\<lambda>r. fst (fst r) = sid)
            (upsert (sid0, item0) v xs))
         = (if sid = sid0
            then upsert item0 v
                   (map (\<lambda>r. (snd (fst r), snd r)) (filter (\<lambda>r. fst (fst r) = sid) xs))
            else map (\<lambda>r. (snd (fst r), snd r)) (filter (\<lambda>r. fst (fst r) = sid) xs))"
  using assms
proof (induction xs)
  case Nil
  show ?case by simp
next
  case (Cons x xs)
  obtain s1 i1 v1 where x: "x = ((s1, i1), v1)" by (cases x) auto
  from Cons.prems have above: "\<forall>y \<in> set xs. (s1, i1) < fst y"
    and tail: "sorted_wrt (<) (map fst xs)"
    by (auto simp: x)
  note IH = Cons.IH [OF tail]
  show ?case
  proof (cases "(sid0, item0) < (s1, i1)")
    case True
    have "\<forall>y \<in> set (map (\<lambda>r. (snd (fst r), snd r))
              (filter (\<lambda>r. fst (fst r) = sid0) (x # xs))). item0 < fst y"
    proof
      fix y assume "y \<in> set (map (\<lambda>r. (snd (fst r), snd r))
              (filter (\<lambda>r. fst (fst r) = sid0) (x # xs)))"
      then have "y \<in> (\<lambda>r. (snd (fst r), snd r)) ` {r \<in> set (x # xs). fst (fst r) = sid0}"
        by (simp only: set_map set_filter)
      then obtain r where r: "r \<in> set (x # xs)" "fst (fst r) = sid0" "y = (snd (fst r), snd r)"
        by blast
      have "(s1, i1) \<le> fst r"
        using r(1) above by (auto simp: x less_imp_le)
      with True have "(sid0, item0) < fst r" by (rule less_le_trans)
      with r(2) have "item0 < snd (fst r)"
        by (cases "fst r") (auto simp: less_prod_def)
      with r(3) show "item0 < fst y" by simp
    qed
    then have "upsert item0 v (map (\<lambda>r. (snd (fst r), snd r))
              (filter (\<lambda>r. fst (fst r) = sid0) (x # xs)))
          = (item0, v) # map (\<lambda>r. (snd (fst r), snd r))
              (filter (\<lambda>r. fst (fst r) = sid0) (x # xs))"
      by (rule upsert_front)
    with True show ?thesis by (auto simp: x)
  next
    case False
    show ?thesis
    proof (cases "(sid0, item0) = (s1, i1)")
      case True
      then show ?thesis by (auto simp: x)
    next
      case ne: False
      with False have gt: "(s1, i1) < (sid0, item0)" by auto
      then have "s1 = sid0 \<Longrightarrow> i1 < item0" by (auto simp: less_prod_def)
      with False ne IH show ?thesis by (auto simp: x)
    qed
  qed
qed

lemma session_rows_put:
  fixes T :: "(int, int \<times> int, 'v) table" and T' :: "(int \<times> int, int, 'v) table"
  assumes c: "clustered T"
    and rel: "\<And>uid sid. map (\<lambda>r. (snd (fst r), snd r))
                 (filter (\<lambda>r. fst (fst r) = sid) (partition_of T uid))
               = partition_of T' (uid, sid)"
  shows "map (\<lambda>r. (snd (fst r), snd r))
           (filter (\<lambda>r. fst (fst r) = sid)
              (partition_of (put_row uid0 (sid0, item0) v T) uid))
         = partition_of (put_row (uid0, sid0) item0 v T') (uid, sid)"
proof -
  have s: "sorted_wrt (<) (map fst (partition_of T uid0))"
    using c by (simp add: clustered_def)
  show ?thesis
    by (simp add: partition_of_put_row session_rows_upsert [OF s] rel)
qed

lemma session_rows_foldl:
  fixes T :: "(int, int \<times> int, 'v) table" and T' :: "(int \<times> int, int, 'v) table"
  assumes "clustered T"
    and "\<And>uid sid. map (\<lambda>r. (snd (fst r), snd r))
                 (filter (\<lambda>r. fst (fst r) = sid) (partition_of T uid))
               = partition_of T' (uid, sid)"
  shows "map (\<lambda>r. (snd (fst r), snd r))
           (filter (\<lambda>r. fst (fst r) = sid)
              (partition_of
                 (foldl (\<lambda>t r. put_row (fst r) (fst (snd r), fst (snd (snd r)))
                                  (snd (snd (snd r))) t) T rs) uid))
         = partition_of
             (foldl (\<lambda>t r. put_row (fst r, fst (snd r)) (fst (snd (snd r)))
                              (snd (snd (snd r))) t) T' rs) (uid, sid)"
  using assms
proof (induction rs arbitrary: T T')
  case Nil
  then show ?case by simp
next
  case (Cons r rs)
  let ?T = "put_row (fst r) (fst (snd r), fst (snd (snd r))) (snd (snd (snd r))) T"
  let ?T' = "put_row (fst r, fst (snd r)) (fst (snd (snd r))) (snd (snd (snd r))) T'"
  have c: "clustered ?T" using Cons.prems(1) by (rule clustered_put_row)
  have rel: "map (\<lambda>r. (snd (fst r), snd r))
                 (filter (\<lambda>r. fst (fst r) = sid) (partition_of ?T uid))
               = partition_of ?T' (uid, sid)" for uid sid
    using Cons.prems by (rule session_rows_put)
  show ?case
    using Cons.IH [OF c rel] by simp
qed

lemma add_rows_total:
  assumes "\<And>r. r \<in> set rows \<Longrightarrow> attrs r names = Inr (g r)"
  shows "add_rows names rows data = (None, data @ map g rows)"
  using assms by (induction rows arbitrary: data) simp_all

lemma printed_select_question_2:
  "printed query_2_columns (select_question_2 d)
     = (None, map (\<lambda>(item, a, s, fname, lname).
                     [CText a, CText s, CInt item, CText fname, CText lname])
                (map (\<lambda>r. (snd (fst r), snd r))
                   (filter (\<lambda>r. fst (fst r) = 182) (partition_of (question_2 d) 10))))"
proof -
  have "add_rows query_2_columns (select_question_2 d) []
      = (None, [] @ map (\<lambda>r. [the (map_of r ''artist''), the (map_of r ''song''),
                                the (map_of r ''item_in_session''),
                                the (map_of r ''first_name''), the (map_of r ''last_name'')])
                      (select_question_2 d))"
    by (rule add_rows_total)
      (auto simp: select_question_2_def query_2_columns_def attr_def)
  then show ?thesis
    by (simp add: printed_def select_question_2_def split_def comp_def)
qed

lemma printed_select_song_playlist_session:
  "printed query_2_columns (select_song_playlist_session d)
     = (None, map (\<lambda>(item, a, s, fname, lname).
                     [CText a, CText s, CInt item, CText fname, CText lname])
                (partition_of (song_playlist_session d) (10, 182)))"
proof -
  have "add_rows query_2_columns (select_song_playlist_session d) []
      = (None, [] @ map (\<lambda>r. [the (map_of r ''artist''), the (map_of r ''song''),
                                the (map_of r ''item_in_session''),
                                the (map_of r ''first_name''), the (map_of r ''last_name'')])
                      (select_song_playlist_session d))"
    by (rule add_rows_total)
      (auto simp: select_song_playlist_session_def query_2_columns_def attr_def)
  then show ?thesis
    by (simp add: printed_def select_song_playlist_session_def split_def comp_def)
qed

text \<open>
  C8. Take a flat file and load it into an empty \<open>question_2\<close> table (first version of
  the notebook) and into an empty \<open>song_playlist_session\<close> table (second version), with a
  store that accepts an insert into one table exactly when it accepts the insert of the
  same values into the other. Then one load raises exactly when the other does, and the
  two queries for user 10 and session 182 print the same tuples (artist, song,
  item_in_session, first_name, last_name) in the same order.
\<close>

theorem question_2_versions_agree:
  assumes "question_2 (db w1) = Map.empty"
    and "song_playlist_session (db w2) = Map.empty"
    and "\<forall>a s sid item uid fname lname.
      accepts env (Call q_insert_question_2
         (Some [CText a, CText s, CInt sid, CInt item, CInt uid, CText fname, CText lname]))
      = accepts env (Call q_insert_song_playlist_session
         (Some [CInt uid, CInt sid, CInt item, CText a, CText s, CText fname, CText lname]))"
  shows "\<exists>res1 res2.
      run_stmt (Call q_select_question_2 None) (db (snd (load_question_2 env file w1)))
        = Inr (res1, db (snd (load_question_2 env file w1)))
      \<and> run_stmt (Call q_select_song_playlist_session None)
            (db (snd (load_song_playlist_session env file w2)))
        = Inr (res2, db (snd (load_song_playlist_session env file w2)))
      \<and> printed query_2_columns res1 = printed query_2_columns res2
      \<and> ((fst (load_question_2 env file w1) = None)
           = (fst (load_song_playlist_session env file w2) = None))"
proof -
  let ?d1 = "db (snd (load_question_2 env file w1))"
  let ?d2 = "db (snd (load_song_playlist_session env file w2))"
  from inserted_agree [OF assms(3), of "tl file"] obtain rs where
    v1: "inserted env q_insert_question_2 question_2_args (tl file)
            = map (\<lambda>(uid, sid, item, a, s, fname, lname).
                [CText a, CText s, CInt sid, CInt item, CInt uid, CText fname, CText lname]) rs"
    and v2: "inserted env q_insert_song_playlist_session song_playlist_session_args (tl file)
            = map (\<lambda>(uid, sid, item, a, s, fname, lname).
                [CInt uid, CInt sid, CInt item, CText a, CText s, CText fname, CText lname]) rs"
    by (elim exE conjE)
  note t1 = load_table_db [where args=question_2_args and env=env
      and q=q_insert_question_2, OF runs_insert_question_2,
      folded load_question_2_def]
  note t2 = load_table_db [where args=song_playlist_session_args and env=env
      and q=q_insert_song_playlist_session, OF runs_insert_song_playlist_session,
      folded load_song_playlist_session_def]
  have d1: "?d1 = run_inserts q_insert_question_2
      (inserted env q_insert_question_2 question_2_args (tl file)) (db w1)"
    by (rule t1(1))
  have d2: "?d2 = run_inserts q_insert_song_playlist_session
      (inserted env q_insert_song_playlist_session song_playlist_session_args (tl file)) (db w2)"
    by (rule t2(1))
  have q1: "question_2 ?d1
      = foldl (\<lambda>t r. put_row (fst r) (fst (snd r), fst (snd (snd r))) (snd (snd (snd r))) t)
          Map.empty rs"
    unfolding d1 v1 run_inserts_question_2 by (simp add: assms(1))
  have q2: "song_playlist_session ?d2
      = foldl (\<lambda>t r. put_row (fst r, fst (snd r)) (fst (snd (snd r))) (snd (snd (snd r))) t)
          Map.empty rs"
    unfolding d2 v2 run_inserts_song_playlist_session by (simp add: assms(2))
  have rel: "map (\<lambda>r. (snd (fst r), snd r))
               (filter (\<lambda>r. fst (fst r) = 182) (partition_of (question_2 ?d1) 10))
             = partition_of (song_playlist_session ?d2) (10, 182)"
    unfolding q1 q2
    by (rule session_rows_foldl) (simp_all add: clustered_empty partition_of_empty)
  have same: "printed query_2_columns (select_question_2 ?d1)
      = printed query_2_columns (select_song_playlist_session ?d2)"
    unfolding printed_select_question_2 printed_select_song_playlist_session rel ..
  have status: "(fst (load_question_2 env file w1) = None)
           = (fst (load_song_playlist_session env file w2) = None)"
  proof -
    have s1: "(fst (load_question_2 env file w1) = None)
        = (file \<noteq> [] \<and> length (inserted env q_insert_question_2 question_2_args (tl file))
             = length (tl file))"
      by (rule t1(2))
    have s2: "(fst (load_song_playlist_session env file w2) = None)
        = (file \<noteq> [] \<and> length (inserted env q_insert_song_playlist_session
               song_playlist_session_args (tl file)) = length (tl file))"
      by (rule t2(2))
    show ?thesis unfolding s1 s2 v1 v2 by simp
  qed
  show ?thesis
    using same status run_stmt_selects(5) [of None ?d1] run_stmt_selects(2) [of None ?d2]
    by (intro exI [of _ "select_question_2 ?d1"]
        exI [of _ "select_song_playlist_session ?d2"] conjI)
qed

theorem question_2_versions_agree_witness:
  "printed query_2_columns
     (select_question_2 (db (snd (load_question_2 plain_env
        [header_row,
         [''Three Drives'', ''Sylvie'', ''F'', ''1'', ''Cruz'', ''411.6'', ''free'',
          ''Washington'', ''182'', ''Greece 2000'', ''10''],
         [''Down To The Bone'', ''Sylvie'', ''F'', ''0'', ''Cruz'', ''333.7'', ''free'',
          ''Washington'', ''182'', ''Keep On Keepin On'', ''10'']] fresh_world))))
   = (None,
      [[CText ''Down To The Bone'', CText ''Keep On Keepin On'', CInt 0, CText ''Sylvie'',
        CText ''Cruz''],
       [CText ''Three Drives'', CText ''Greece 2000'', CInt 1, CText ''Sylvie'',
        CText ''Cruz'']])
   \<and> printed query_2_columns
     (select_song_playlist_session (db (snd (load_song_playlist_session plain_env
        [header_row,
         [''Three Drives'', ''Sylvie'', ''F'', ''1'', ''Cruz'', ''411.6'', ''free'',
          ''Washington'', ''182'', ''Greece 2000'', ''10''],
         [''Down To The Bone'', ''Sylvie'', ''F'', ''0'', ''Cruz'', ''333.7'', ''free'',
          ''Washington'', ''182'', ''Keep On Keepin On'', ''10'']] fresh_world))))
   = (None,
      [[CText ''Down To The Bone'', CText ''Keep On Keepin On'', CInt 0, CText ''Sylvie'',
        CText ''Cruz''],
       [CText ''Three Drives'', CText ''Greece 2000'', CInt 1, CText ''Sylvie'',
        CText ''Cruz'']])"
proof -
  let ?F = "[header_row,
         [''Three Drives'', ''Sylvie'', ''F'', ''1'', ''Cruz'', ''411.6'', ''free'',
          ''Washington'', ''182'', ''Greece 2000'', ''10''],
         [''Down To The Bone'', ''Sylvie'', ''F'', ''0'', ''Cruz'', ''333.7'', ''free'',
          ''Washington'', ''182'', ''Keep On Keepin On'', ''10'']]"
  let ?w = "fresh_world :: (int \<times> nat) world"
  let ?d1 = "db (snd (load_question_2 plain_env ?F ?w))"
  let ?d2 = "db (snd (load_song_playlist_session plain_env ?F ?w))"
  have e: "printed query_2_columns (select_song_playlist_session ?d2)
     = (None,
      [[CText ''Down To The Bone'', CText ''Keep On Keepin On'', CInt 0, CText ''Sylvie'',
        CText ''Cruz''],
       [CText ''Three Drives'', CText ''Greece 2000'', CInt 1, CText ''Sylvie'',
        CText ''Cruz'']])"
    by code_simp
  have h1: "question_2 (db ?w) = Map.empty" and h2: "song_playlist_session (db ?w) = Map.empty"
    by (simp_all add: fresh_world_def empty_db_def)
  have h3: "\<forall>a s sid item uid fname lname.
      accepts plain_env (Call q_insert_question_2
         (Some [CText a, CText s, CInt sid, CInt item, CInt uid, CText fname, CText lname]))
      = accepts plain_env (Call q_insert_song_playlist_session
         (Some [CInt uid, CInt sid, CInt item, CText a, CText s, CText fname, CText lname]))"
    by (simp add: accepts_plain_env)
  from question_2_versions_agree [OF h1 h2 h3, of ?F] obtain res1 res2 where
    r1: "run_stmt (Call q_select_question_2 None) ?d1 = Inr (res1, ?d1)"
    and r2: "run_stmt (Call q_select_song_playlist_session None) ?d2 = Inr (res2, ?d2)"
    and p: "printed query_2_columns res1 = printed query_2_columns res2"
    by (elim exE conjE)
  from r1 have "res1 = select_question_2 ?d1" by (simp add: run_stmt_selects)
  moreover from r2 have "res2 = select_song_playlist_session ?d2" by (simp add: run_stmt_selects)
  ultimately have "printed query_2_columns (select_question_2 ?d1)
      = printed query_2_columns (select_song_playlist_session ?d2)"
    using p by simp
  with e show ?thesis by simp
qed

section \<open>Files and connections along a run\<close>

lemma orderly_append:
  "orderly s (a @ b) = (orderly s a \<and> orderly (foldl step_resources s a) b)"
proof (induction a arbitrary: s)
  case Nil
  show ?case by (cases b) auto
next
  case (Cons e a)
  show ?case by (simp add: Cons.IH)
qed

lemma orderly_end: "orderly s tr \<Longrightarrow> within_limits (foldl step_resources s tr)"
  by (induction tr arbitrary: s) simp_all

lemma orderly_take: "orderly s tr \<Longrightarrow> orderly s (take k tr)"
  using orderly_append [of s "take k tr" "drop k tr"] by simp

lemma orderly_prefixes:
  "orderly s tr \<Longrightarrow> within_limits (foldl step_resources s (take k tr))"
  by (rule orderly_end) (rule orderly_take)

lemma orderly_at:
  "orderly s (pre @ e # post) \<Longrightarrow> allowed (foldl step_resources s pre) e"
  by (simp add: orderly_append)

text \<open>The segments the cells add to the trace.\<close>

lemma step_Execute: "step_resources s (Execute c) = s"
  by (cases s) simp

lemma foldl_inserts:
  "foldl step_resources s (map (\<lambda>vs. Execute (Call q (Some vs))) vss) = s"
  by (induction vss) (simp_all add: step_Execute)

lemma orderly_inserts: "orderly (1, 1, 1) (map (\<lambda>vs. Execute (Call q (Some vs))) vss)"
  by (induction vss) (simp_all add: within_limits_def)

lemma quiet_Nil: "within_limits s \<Longrightarrow> quiet s []"
  by (simp add: quiet_def)

lemma quiet_append: "quiet s a \<Longrightarrow> quiet s b \<Longrightarrow> quiet s (a @ b)"
  by (simp add: quiet_def orderly_append)

lemma quiet_execute: "params c = None \<Longrightarrow> quiet (0, 1, 1) [Execute c]"
  by (simp add: quiet_def within_limits_def)

lemma quiet_keyspace: "quiet (0, 1, 1) [SetKeyspace k]"
  by (simp add: quiet_def within_limits_def)

lemma quiet_file: "within_limits (0, c, n) \<Longrightarrow> quiet (0, c, n) [FileOpen p, FileClose q]"
  by (simp add: quiet_def within_limits_def)

lemma quiet_files:
  assumes "within_limits (0, c, n)"
  shows "quiet (0, c, n)
           (concat (map (\<lambda>x. [FileOpen (fst x), FileClose (fst x)]) gs) :: 'f event list)"
proof (induction gs)
  case Nil
  show ?case using assms by (simp add: quiet_Nil)
next
  case (Cons x gs)
  have "quiet (0, c, n) ([FileOpen (fst x), FileClose (fst x)]
          @ (concat (map (\<lambda>x. [FileOpen (fst x), FileClose (fst x)]) gs) :: 'f event list))"
    using quiet_file [OF assms, of "fst x" "fst x"] Cons.IH by (rule quiet_append)
  then show ?case by simp
qed

lemma quiet_load:
  "quiet (0, 1, 1) (FileOpen p # map (\<lambda>vs. Execute (Call q (Some vs))) vss @ [FileClose p'])"
  by (simp add: quiet_def orderly_append orderly_inserts foldl_inserts within_limits_def)

lemma grows_refl: "within_limits s \<Longrightarrow> grows s w w"
  unfolding grows_def by (rule exI [of _ "[]"]) (simp add: quiet_Nil)

lemma grows_seg: "trace w' = trace w @ seg \<Longrightarrow> quiet s seg \<Longrightarrow> grows s w w'"
  unfolding grows_def by blast

lemma grows_trans:
  assumes "grows s w w'" and "grows s w' w''"
  shows "grows s w w''"
proof -
  from assms(1) obtain a where a: "trace w' = trace w @ a" "quiet s a"
    unfolding grows_def by blast
  from assms(2) obtain b where b: "trace w'' = trace w' @ b" "quiet s b"
    unfolding grows_def by blast
  have "trace w'' = trace w @ (a @ b)" by (simp add: a b)
  then show ?thesis using quiet_append [OF a(2) b(2)] by (rule grows_seg)
qed

lemma settled_grows: "settled s w \<Longrightarrow> grows s w w' \<Longrightarrow> settled s w'"
  unfolding settled_def grows_def quiet_def resources_after_def
  by (auto simp: orderly_append)

lemma settled_within: "settled s w \<Longrightarrow> within_limits s"
  unfolding settled_def resources_after_def using orderly_end by blast

text \<open>What each cell adds.\<close>

lemma grows_execute: "params c = None \<Longrightarrow> grows (0, 1, 1) w (snd (execute env c w))"
  by (rule grows_seg [OF trace_execute]) (rule quiet_execute)

lemma grows_definition_cell: "grows (0, 1, 1) w (snd (definition_cell env q w))"
  unfolding definition_cell_def snd_conv by (rule grows_execute) simp

lemma grows_query_cell: "grows (0, 1, 1) w (snd (query_cell env q names w))"
  by (rule grows_seg [OF trace_query_cell]) (simp add: quiet_execute)

lemma grows_drop_tables: "grows (0, 1, 1) w (drop_tables env ts w)"
proof (induction ts arbitrary: w)
  case Nil
  show ?case by (simp add: grows_refl within_limits_def)
next
  case (Cons t ts)
  have "grows (0, 1, 1) w (snd (execute env (Call (q_drop_table t) None) w))"
    by (rule grows_execute) simp
  then show ?case unfolding drop_tables.simps using Cons.IH by (rule grows_trans)
qed

lemma grows_drop_cell: "grows (0, 1, 1) w (snd (drop_cell env w))"
  unfolding drop_cell_def snd_conv by (rule grows_drop_tables)

lemma grows_set_keyspace_cell: "grows (0, 1, 1) w (snd (set_keyspace_cell w))"
  by (rule grows_seg [where seg="[SetKeyspace ''sparkify'']"])
    (simp_all add: set_keyspace_cell_def trace_emit quiet_keyspace)

lemma grows_count_cell:
  assumes "within_limits (0, c, n)"
  shows "grows (0, c, n) w (snd (count_cell w))"
  by (rule grows_seg [where seg="[FileOpen new_datafile, FileClose new_datafile]"])
    (simp_all add: count_cell_def trace_emit quiet_file [OF assms])

lemma trace_load_table:
  "\<exists>vss. trace (snd (load_table env q args flat w))
     = trace w @ FileOpen new_datafile # map (\<lambda>vs. Execute (Call q (Some vs))) vss
         @ [FileClose new_datafile]"
proof (cases flat)
  case Nil
  show ?thesis
    by (rule exI [of _ "[]"]) (simp add: Nil load_table_def Let_def trace_emit)
next
  case (Cons header lines)
  from insert_loop_trace [of env q args lines "emit (FileOpen new_datafile) w"] obtain vss where
    t: "trace (snd (insert_loop env q args lines (emit (FileOpen new_datafile) w)))
          = trace (emit (FileOpen new_datafile) w)
            @ map (\<lambda>vs. Execute (Call q (Some vs))) vss"
    by (elim exE conjE)
  show ?thesis
    unfolding Cons load_table_header
    by (rule exI [of _ vss]) (simp add: trace_emit t)
qed

lemma grows_load_table: "grows (0, 1, 1) w (snd (load_table env q args flat w))"
proof -
  from trace_load_table [of env q args flat w] obtain vss where
    "trace (snd (load_table env q args flat w))
     = trace w @ FileOpen new_datafile # map (\<lambda>vs. Execute (Call q (Some vs))) vss
         @ [FileClose new_datafile]" ..
  then show ?thesis by (rule grows_seg) (rule quiet_load)
qed

lemma trace_read_files:
  "\<exists>gs. trace (snd (read_files fs acc w))
           = trace w @ concat (map (\<lambda>x. [FileOpen (fst x), FileClose (fst x)]) gs)
       \<and> (\<not> isl (fst (read_files fs acc w)) \<longrightarrow> gs = fs)"
proof (induction fs arbitrary: acc w)
  case Nil
  show ?case by simp
next
  case (Cons x fs)
  obtain f content where x: "x = (f, content)" by (cases x)
  let ?w = "emit (FileClose f) (emit (FileOpen f) w)"
  show ?case
  proof (cases content)
    case Nil
    show ?thesis
      by (rule exI [of _ "[x]"]) (simp add: x Nil Let_def trace_emit)
  next
    case c: (Cons header lines)
    from Cons.IH [of "acc @ lines" ?w] obtain gs where
      g: "trace (snd (read_files fs (acc @ lines) ?w))
           = trace ?w @ concat (map (\<lambda>x. [FileOpen (fst x), FileClose (fst x)]) gs)"
      and h: "\<not> isl (fst (read_files fs (acc @ lines) ?w)) \<longrightarrow> gs = fs"
      by (elim exE conjE)
    show ?thesis
      using g h by (intro exI [of _ "x # gs"]) (simp add: x c Let_def trace_emit)
  qed
qed

lemma trace_extract_cell:
  "\<exists>gs out. trace (snd (extract_cell fs w))
           = trace w @ concat (map (\<lambda>x. [FileOpen (fst x), FileClose (fst x)]) gs) @ out
       \<and> (out = [] \<or> out = [FileOpen new_datafile, FileClose new_datafile])
       \<and> (fst (extract_cell fs w) = None
            \<longrightarrow> gs = fs \<and> out = [FileOpen new_datafile, FileClose new_datafile])"
proof -
  obtain r w1 where rf: "read_files fs [] w = (r, w1)" by (cases "read_files fs [] w")
  from trace_read_files [of fs "[]" w] rf obtain gs where
    g: "trace w1 = trace w @ concat (map (\<lambda>x. [FileOpen (fst x), FileClose (fst x)]) gs)"
    and h: "\<not> isl r \<longrightarrow> gs = fs"
    by auto
  show ?thesis
  proof (cases r)
    case (Inl e)
    show ?thesis
      using g by (intro exI [of _ gs] exI [of _ "[]"]) (simp add: extract_cell_def rf Inl)
  next
    case (Inr rows)
    with h have "gs = fs" by simp
    with g show ?thesis
      by (intro exI [of _ gs] exI [of _ "[FileOpen new_datafile, FileClose new_datafile]"])
        (simp add: extract_cell_def rf Inr Let_def trace_emit split: prod.splits)
  qed
qed

lemma grows_extract_cell:
  fixes w :: "'f world"
  assumes "within_limits (0, c, n)"
  shows "grows (0, c, n) w (snd (extract_cell fs w))"
proof -
  from trace_extract_cell [of fs w] obtain gs :: "(string \<times> row list) list" and out :: "'f event list" where
    t: "trace (snd (extract_cell fs w))
           = trace w @ concat (map (\<lambda>x. [FileOpen (fst x), FileClose (fst x)]) gs) @ out"
    and o: "out = [] \<or> out = [FileOpen new_datafile, FileClose new_datafile]"
    by blast
  from o have "quiet (0, c, n) out"
    using quiet_Nil [OF assms] quiet_file [OF assms] by auto
  with quiet_files [OF assms]
  have "quiet (0, c, n) (concat (map (\<lambda>x. [FileOpen (fst x), FileClose (fst x)]) gs) @ out)"
    by (rule quiet_append)
  with t show ?thesis by (rule grows_seg)
qed

lemma run_cells_append:
  "run_cells (cs @ ds) w =
     (if fst (run_cells cs w) = None then run_cells ds (snd (run_cells cs w))
      else run_cells cs w)"
proof (induction cs arbitrary: w)
  case Nil
  show ?case by simp
next
  case (Cons c cs)
  obtain r w' where c: "c w = (r, w')" by (cases "c w")
  show ?case
    by (cases r) (simp_all add: c Cons.IH)
qed

lemma run_cells_append_raise:
  "fst (run_cells cs w) \<noteq> None \<Longrightarrow> run_cells (cs @ ds) w = run_cells cs w"
  by (auto simp add: run_cells_append simp del: run_cells.simps)

lemma run_cells_append_pass:
  "fst (run_cells cs w) = None \<Longrightarrow> run_cells (cs @ ds) w = run_cells ds (snd (run_cells cs w))"
  by (simp add: run_cells_append del: run_cells.simps)

lemma grows_run_cells:
  assumes "within_limits s" and "\<And>c w. c \<in> set cs \<Longrightarrow> grows s w (snd (c w))"
  shows "grows s w (snd (run_cells cs w))"
proof (rule run_cells_invariant [where P="grows s w"])
  show "grows s w w" using assms(1) by (rule grows_refl)
next
  fix c w'
  assume "c \<in> set cs" and "grows s w w'"
  from this(2) assms(2) [OF this(1)] show "grows s w (snd (c w'))" by (rule grows_trans)
qed

lemma grows_transform_phase: "grows (0, 1, 1) w (snd (transform_phase env flat w))"
  unfolding transform_phase_def
  by (rule grows_run_cells)
    (auto simp: within_limits_def load_artist_song_session_def load_song_playlist_session_def
      load_user_song_def grows_load_table grows_definition_cell)

lemma grows_query_phase: "grows (0, 1, 1) w (snd (query_phase env w))"
  unfolding query_phase_def
  by (rule grows_run_cells)
    (auto simp: within_limits_def query_1_def query_2_def query_3_def grows_query_cell)

lemma grows_before_connect:
  "grows (0, 0, 0) w (snd (run_cells [extract_cell fs, count_cell] w))"
  by (rule grows_run_cells)
    (auto simp: within_limits_def grows_extract_cell grows_count_cell)

lemma grows_connected:
  "grows (0, 1, 1) w
     (snd (run_cells [definition_cell env q_create_keyspace, set_keyspace_cell,
                      transform_phase env flat, query_phase env, drop_cell env] w))"
  by (rule grows_run_cells)
    (auto simp: within_limits_def grows_definition_cell grows_set_keyspace_cell
      grows_transform_phase grows_query_phase grows_drop_cell)

lemma trace_before_connect:
  assumes "fst (extract_cell fs w) = None"
  shows "run_cells [extract_cell fs, count_cell] w
           = (None, snd (count_cell (snd (extract_cell fs w))))"
    and "trace (snd (count_cell (snd (extract_cell fs w))))
           = trace w @ concat (map (\<lambda>x. [FileOpen (fst x), FileClose (fst x)]) fs)
               @ [FileOpen new_datafile, FileClose new_datafile,
                  FileOpen new_datafile, FileClose new_datafile]"
proof -
  show "run_cells [extract_cell fs, count_cell] w
           = (None, snd (count_cell (snd (extract_cell fs w))))"
    unfolding run_cells_pass [of "extract_cell fs", OF assms]
    by (simp add: count_cell_def)
  from trace_extract_cell [of fs w] assms
  have "trace (snd (extract_cell fs w))
           = trace w @ concat (map (\<lambda>x. [FileOpen (fst x), FileClose (fst x)]) fs)
               @ [FileOpen new_datafile, FileClose new_datafile]"
    by auto
  then show "trace (snd (count_cell (snd (extract_cell fs w))))
           = trace w @ concat (map (\<lambda>x. [FileOpen (fst x), FileClose (fst x)]) fs)
               @ [FileOpen new_datafile, FileClose new_datafile,
                  FileOpen new_datafile, FileClose new_datafile]"
    by (simp add: count_cell_def trace_emit)
qed

text \<open>
  The run, cell by cell: the extract and count cells with no connection, the connect
  cell, the cells that use the connection, the shutdown cell.
\<close>

lemma pipeline_settled:
  assumes "settled (0, 0, 0) w"
  shows "orderly (0, 0, 0) (trace (snd (pipeline env fs flat w)))"
    and "fst (pipeline env fs flat w) = None \<Longrightarrow>
           resources_after (trace (snd (pipeline env fs flat w))) = (0, 0, 1)
           \<and> (\<exists>tr. trace (snd (pipeline env fs flat w)) = tr @ [SessionShutdown, ClusterShutdown])"
    and "fst (extract_cell fs w) = None \<Longrightarrow> cluster_up env \<Longrightarrow>
           \<exists>rest. trace (snd (pipeline env fs flat w))
             = trace w @ concat (map (\<lambda>x. [FileOpen (fst x), FileClose (fst x)]) fs)
               @ [FileOpen new_datafile, FileClose new_datafile,
                  FileOpen new_datafile, FileClose new_datafile, ClusterConnect] @ rest"
proof -
  let ?as = "[extract_cell fs, count_cell] :: 'a cell list"
  let ?bs = "[definition_cell env q_create_keyspace, set_keyspace_cell,
              transform_phase env flat, query_phase env, drop_cell env]"
  let ?A = "run_cells ?as w"
  let ?wC = "emit ClusterConnect (snd ?A)"
  let ?B = "run_cells ?bs ?wC"
  let ?P = "pipeline env fs flat w"
  let ?files = "concat (map (\<lambda>x. [FileOpen (fst x), FileClose (fst x)]) fs)
               @ [FileOpen new_datafile, FileClose new_datafile,
                  FileOpen new_datafile, FileClose new_datafile] :: 'a event list"
  have list: "?P = run_cells (?as @ connect_cell env # (?bs @ [shutdown_cell])) w"
    unfolding pipeline_def by (simp only: append.simps)
  have sA: "settled (0, 0, 0) (snd ?A)"
    using assms grows_before_connect by (rule settled_grows)
  have sC: "settled (0, 1, 1) ?wC"
    using sA by (simp add: settled_def resources_after_def trace_emit orderly_append
        within_limits_def)
  have sB: "settled (0, 1, 1) (snd ?B)"
    using sC grows_connected by (rule settled_grows)
  from grows_connected [of ?wC env flat] obtain seg where
    seg: "trace (snd ?B) = trace (snd ?A) @ ClusterConnect # seg"
    unfolding grows_def by (auto simp: trace_emit)
  have sS: "settled (0, 0, 1) (snd (shutdown_cell (snd ?B)))"
    using sB by (simp add: settled_def resources_after_def shutdown_cell_def trace_emit
        orderly_append within_limits_def)
  have tS: "trace (snd (shutdown_cell (snd ?B)))
              = trace (snd ?B) @ [SessionShutdown, ClusterShutdown]"
    by (simp add: shutdown_cell_def trace_emit)
  have cases: "(fst ?A \<noteq> None \<and> ?P = ?A)
      \<or> (fst ?A = None \<and> \<not> cluster_up env \<and> ?P = (Some NoHostAvailable, snd ?A))
      \<or> (fst ?A = None \<and> cluster_up env \<and> fst ?B \<noteq> None \<and> ?P = ?B)
      \<or> (fst ?A = None \<and> cluster_up env \<and> fst ?B = None
           \<and> ?P = (None, snd (shutdown_cell (snd ?B))))"
  proof (cases "fst ?A = None")
    case False
    then have "run_cells (?as @ connect_cell env # (?bs @ [shutdown_cell])) w = ?A"
      by (rule run_cells_append_raise)
    with False show ?thesis unfolding list by simp
  next
    case a: True
    have p1: "?P = run_cells (connect_cell env # (?bs @ [shutdown_cell])) (snd ?A)"
      unfolding list using a by (rule run_cells_append_pass)
    show ?thesis
    proof (cases "cluster_up env")
      case False
      then have "fst (connect_cell env (snd ?A)) \<noteq> None" by (simp add: connect_cell_def)
      then have "run_cells (connect_cell env # (?bs @ [shutdown_cell])) (snd ?A)
                  = connect_cell env (snd ?A)"
        by (rule run_cells_raise)
      with False a p1 show ?thesis by (simp add: connect_cell_def del: run_cells.simps)
    next
      case u: True
      then have c: "connect_cell env (snd ?A) = (None, ?wC)" by (simp add: connect_cell_def)
      then have "fst (connect_cell env (snd ?A)) = None" by simp
      then have "run_cells (connect_cell env # (?bs @ [shutdown_cell])) (snd ?A)
                  = run_cells (?bs @ [shutdown_cell]) (snd (connect_cell env (snd ?A)))"
        by (rule run_cells_pass)
      then have p2: "?P = run_cells (?bs @ [shutdown_cell]) ?wC"
        unfolding p1 c snd_conv .
      show ?thesis
      proof (cases "fst ?B = None")
        case False
        then have "run_cells (?bs @ [shutdown_cell]) ?wC = ?B"
          by (rule run_cells_append_raise)
        with False a u p2 show ?thesis by (simp del: run_cells.simps)
      next
        case b: True
        then have "run_cells (?bs @ [shutdown_cell]) ?wC = run_cells [shutdown_cell] (snd ?B)"
          by (rule run_cells_append_pass)
        moreover have "run_cells [shutdown_cell] (snd ?B) = (None, snd (shutdown_cell (snd ?B)))"
          by (simp add: shutdown_cell_def)
        ultimately show ?thesis using a u b p2 by (simp del: run_cells.simps)
      qed
    qed
  qed
  from cases sA sB sS show "orderly (0, 0, 0) (trace (snd ?P))"
    by (auto simp: settled_def simp del: run_cells.simps)
  {
    assume "fst ?P = None"
    with cases have p: "?P = (None, snd (shutdown_cell (snd ?B)))"
      by (auto simp del: run_cells.simps)
    from sS tS show "resources_after (trace (snd ?P)) = (0, 0, 1)
           \<and> (\<exists>tr. trace (snd ?P) = tr @ [SessionShutdown, ClusterShutdown])"
      unfolding p snd_conv by (auto simp: settled_def)
  }
  {
    assume e: "fst (extract_cell fs w) = None" and u: "cluster_up env"
    note A = trace_before_connect [OF e]
    have tA: "trace (snd ?A) = trace w @ ?files"
      unfolding A(1) snd_conv by (rule A(2))
    have fA: "fst ?A = None" unfolding A(1) by simp
    from cases fA u have "?P = ?B \<or> ?P = (None, snd (shutdown_cell (snd ?B)))"
      by (auto simp del: run_cells.simps)
    then show "\<exists>rest. trace (snd ?P)
             = trace w @ concat (map (\<lambda>x. [FileOpen (fst x), FileClose (fst x)]) fs)
               @ [FileOpen new_datafile, FileClose new_datafile,
                  FileOpen new_datafile, FileClose new_datafile, ClusterConnect] @ rest"
    proof
      assume "?P = ?B"
      then show ?thesis
        by (intro exI [of _ seg]) (simp add: seg tA del: run_cells.simps)
    next
      assume "?P = (None, snd (shutdown_cell (snd ?B)))"
      then show ?thesis
        by (intro exI [of _ "seg @ [SessionShutdown, ClusterShutdown]"])
          (simp add: tS seg tA del: run_cells.simps)
    qed
  }
qed


text \<open>
  C7, as amended. Along a run of the notebook from the top, whatever the files hold and
  whichever cell raises: at every moment at most one file and at most one cluster
  connection are open, and nothing is closed that is not open; every
  \<^verbatim>\<open>session.execute\<close> call is made while the one connection the run has opened is
  open, the calls of the load loops (those that bind values) with exactly one file
  open, every other call with none; the connection is opened with no file open and
  none opened before it. It is not opened at the start of the run: when the extract
  cell raises nothing and the cluster answers, the run opens and closes each event file
  in turn, then the flat file twice (to write it, to count its lines), and connects
  only then. A run that reaches the end has closed every file, has opened exactly one
  connection and has shut it down as its last act.
\<close>

theorem one_file_one_connection:
  fixes w :: "'f world"
  assumes "trace w = []"
  shows "(\<forall>k. within_limits
             (resources_after (take k (trace (snd (pipeline env file_path_list file w))))))
    \<and> (\<forall>pre c post. trace (snd (pipeline env file_path_list file w)) = pre @ Execute c # post
          \<longrightarrow> resources_after pre = (if params c = None then 0 else 1, 1, 1))
    \<and> (\<forall>pre post. trace (snd (pipeline env file_path_list file w)) = pre @ ClusterConnect # post
          \<longrightarrow> resources_after pre = (0, 0, 0))
    \<and> (fst (extract_cell file_path_list w) = None \<and> cluster_up env \<longrightarrow>
         (\<exists>rest. trace (snd (pipeline env file_path_list file w))
            = concat (map (\<lambda>x. [FileOpen (fst x), FileClose (fst x)]) file_path_list)
              @ [FileOpen new_datafile, FileClose new_datafile,
                 FileOpen new_datafile, FileClose new_datafile, ClusterConnect] @ rest))
    \<and> (fst (pipeline env file_path_list file w) = None \<longrightarrow>
         resources_after (trace (snd (pipeline env file_path_list file w))) = (0, 0, 1)
         \<and> (\<exists>tr. trace (snd (pipeline env file_path_list file w))
                    = tr @ [SessionShutdown, ClusterShutdown]))"
proof -
  have s0: "settled (0, 0, 0) w"
    using assms by (simp add: settled_def resources_after_def within_limits_def)
  let ?tr = "trace (snd (pipeline env file_path_list file w))"
  note p = pipeline_settled [OF s0, where env=env and fs=file_path_list and flat="file"]
  have a: "\<forall>k. within_limits (resources_after (take k ?tr))"
    unfolding resources_after_def using orderly_prefixes [OF p(1)] by blast
  have b: "\<forall>pre c post. ?tr = pre @ Execute c # post
          \<longrightarrow> resources_after pre = (if params c = None then 0 else 1, 1, 1)"
  proof (intro allI impI)
    fix pre c post
    assume e: "?tr = pre @ Execute c # post"
    obtain f k n where s: "foldl step_resources (0, 0, 0) pre = (f, k, n)"
      by (cases "foldl step_resources (0, 0, 0) pre")
    from p(1) have "allowed (foldl step_resources (0, 0, 0) pre) (Execute c)"
      unfolding e by (rule orderly_at)
    then show "resources_after pre = (if params c = None then 0 else 1, 1, 1)"
      unfolding resources_after_def s by simp
  qed
  have c: "\<forall>pre post. ?tr = pre @ ClusterConnect # post \<longrightarrow> resources_after pre = (0, 0, 0)"
  proof (intro allI impI)
    fix pre post
    assume e: "?tr = pre @ ClusterConnect # post"
    obtain f k n where s: "foldl step_resources (0, 0, 0) pre = (f, k, n)"
      by (cases "foldl step_resources (0, 0, 0) pre")
    from p(1) have "allowed (foldl step_resources (0, 0, 0) pre) (ClusterConnect :: 'f event)"
      unfolding e by (rule orderly_at)
    then show "resources_after pre = (0, 0, 0)"
      unfolding resources_after_def s by simp
  qed
  have d: "fst (extract_cell file_path_list w) = None \<and> cluster_up env \<longrightarrow>
         (\<exists>rest. ?tr
            = concat (map (\<lambda>x. [FileOpen (fst x), FileClose (fst x)]) file_path_list)
              @ [FileOpen new_datafile, FileClose new_datafile,
                 FileOpen new_datafile, FileClose new_datafile, ClusterConnect] @ rest)"
    using p(3) assms by auto
  have e: "fst (pipeline env file_path_list file w) = None \<longrightarrow>
         resources_after ?tr = (0, 0, 1)
         \<and> (\<exists>tr. ?tr = tr @ [SessionShutdown, ClusterShutdown])"
    using p(2) by blast
  from a b c d e show ?thesis by (intro conjI)
qed

lemma read_files_ok:
  assumes "\<forall>x \<in> set fs. snd x \<noteq> []"
  shows "fst (read_files fs acc w) = Inr (acc @ concat (map (\<lambda>x. tl (snd x)) fs))"
  using assms
proof (induction fs arbitrary: acc w)
  case Nil
  show ?case by simp
next
  case (Cons x fs)
  obtain f content where x: "x = (f, content)" by (cases x)
  from Cons.prems x obtain header lines where c: "content = header # lines"
    by (cases content) auto
  from Cons.prems have "\<forall>x \<in> set fs. snd x \<noteq> []" by simp
  from Cons.IH [OF this] show ?case by (simp add: x c Let_def)
qed

lemma extract_cell_ok:
  assumes "\<forall>x \<in> set fs. snd x \<noteq> []"
    and "\<forall>r \<in> set (concat (map (\<lambda>x. tl (snd x)) fs)). 17 \<le> length r"
  shows "fst (extract_cell fs w) = None"
proof -
  obtain r w1 where rf: "read_files fs [] w = (r, w1)" by (cases "read_files fs [] w")
  with read_files_ok [OF assms(1), of "[]" w]
  have r: "r = Inr (concat (map (\<lambda>x. tl (snd x)) fs))" by simp
  have "fst (write_new_datafile (concat (map (\<lambda>x. tl (snd x)) fs))) = None"
    unfolding write_new_datafile_def write_data_rows_wide [OF assms(2)] by simp
  then show ?thesis
    by (auto simp add: extract_cell_def rf r Let_def split: prod.splits)
qed

lemma query_cell_ok:
  assumes "accepts env (Call q None)"
    and "run_stmt (Call q None) (db w) = Inr (rows, d)"
    and "\<And>r. r \<in> set rows \<Longrightarrow> attrs r names = Inr (g r)"
  shows "fst (query_cell env q names w) = None"
  unfolding query_cell_def execute_accepted [OF assms(1,2)]
  by (simp add: add_rows_total [where g=g, OF assms(3)])

lemma query_phase_ok:
  assumes "\<And>c. accepts env c"
  shows "fst (query_phase env w) = None"
  unfolding query_phase_def
proof (rule run_cells_all_pass)
  fix c :: "'a cell" and w
  assume "c \<in> set [query_1 env, query_2 env, query_3 env]"
  then consider "c = query_1 env" | "c = query_2 env" | "c = query_3 env" by auto
  then show "fst (c w) = None"
  proof cases
    case 1
    show ?thesis
      unfolding 1 query_1_def
      by (rule query_cell_ok [where g="\<lambda>r. [the (map_of r ''artist''), the (map_of r ''song''),
                                             the (map_of r ''length'')]"])
        (auto simp: assms run_stmt_selects select_artist_song_session_def attr_def)
  next
    case 2
    show ?thesis
      unfolding 2 query_2_def
      by (rule query_cell_ok [where g="\<lambda>r. [the (map_of r ''artist''), the (map_of r ''song''),
                                             the (map_of r ''item_in_session''),
                                             the (map_of r ''first_name''),
                                             the (map_of r ''last_name'')]"])
        (auto simp: assms run_stmt_selects select_song_playlist_session_def attr_def
          query_2_columns_def)
  next
    case 3
    show ?thesis
      unfolding 3 query_3_def
      by (rule query_cell_ok [where g="\<lambda>r. [the (map_of r ''first_name''),
                                             the (map_of r ''last_name'')]"])
        (auto simp: assms run_stmt_selects select_user_song_def attr_def)
  qed
qed

lemma plain_pipeline_completes:
  "fst (pipeline plain_env
         [(''event_data/2018-11-08-events.csv'',
           [[''artist'', ''auth'', ''firstName'', ''gender'', ''itemInSession'', ''lastName'',
             ''length'', ''level'', ''location'', ''method'', ''page'', ''registration'',
             ''sessionId'', ''song'', ''status'', ''ts'', ''userId''],
            [''Faithless'', ''Logged In'', ''Ava'', ''F'', ''4'', ''Robinson'', ''495.3073'',
             ''free'', ''New Haven'', ''PUT'', ''NextSong'', ''1.54'', ''338'', ''Music Matters'',
             ''200'', ''1541'', ''50'']])]
         [header_row,
          [''Faithless'', ''Ava'', ''F'', ''4'', ''Robinson'', ''495.3073'', ''free'',
           ''New Haven'', ''338'', ''Music Matters'', ''50'']] w) = None"
  unfolding pipeline_def
proof (rule run_cells_all_pass)
  fix c :: "(int \<times> nat) cell" and w
  let ?fs = "[(''event_data/2018-11-08-events.csv'',
           [[''artist'', ''auth'', ''firstName'', ''gender'', ''itemInSession'', ''lastName'',
             ''length'', ''level'', ''location'', ''method'', ''page'', ''registration'',
             ''sessionId'', ''song'', ''status'', ''ts'', ''userId''],
            [''Faithless'', ''Logged In'', ''Ava'', ''F'', ''4'', ''Robinson'', ''495.3073'',
             ''free'', ''New Haven'', ''PUT'', ''NextSong'', ''1.54'', ''338'', ''Music Matters'',
             ''200'', ''1541'', ''50'']])]"
  let ?F = "[header_row,
          [''Faithless'', ''Ava'', ''F'', ''4'', ''Robinson'', ''495.3073'', ''free'',
           ''New Haven'', ''338'', ''Music Matters'', ''50'']]"
  assume "c \<in> set [extract_cell ?fs, count_cell, connect_cell plain_env,
                definition_cell plain_env q_create_keyspace, set_keyspace_cell,
                transform_phase plain_env ?F, query_phase plain_env, drop_cell plain_env,
                shutdown_cell]"
  then consider "c = extract_cell ?fs" | "c = count_cell" | "c = connect_cell plain_env"
    | "c = definition_cell plain_env q_create_keyspace" | "c = set_keyspace_cell"
    | "c = transform_phase plain_env ?F" | "c = query_phase plain_env"
    | "c = drop_cell plain_env" | "c = shutdown_cell"
    by auto
  then show "fst (c w) = None"
  proof cases
    case 1
    show ?thesis unfolding 1 by (rule extract_cell_ok) simp_all
  next
    case 2
    show ?thesis unfolding 2 by (simp add: count_cell_def)
  next
    case 3
    show ?thesis unfolding 3 by (simp add: connect_cell_def plain_env_def)
  next
    case 4
    show ?thesis unfolding 4 by (rule fst_definition_cell)
  next
    case 5
    show ?thesis unfolding 5 by (simp add: set_keyspace_cell_def)
  next
    case 6
    show ?thesis unfolding 6 by (rule plain_transform_completes)
  next
    case 7
    show ?thesis unfolding 7 by (rule query_phase_ok) (rule accepts_plain_env)
  next
    case 8
    show ?thesis unfolding 8 by (simp add: drop_cell_def)
  next
    case 9
    show ?thesis unfolding 9 by (simp add: shutdown_cell_def)
  qed
qed

theorem one_file_one_connection_witness:
  "fst (pipeline plain_env
         [(''event_data/2018-11-08-events.csv'',
           [[''artist'', ''auth'', ''firstName'', ''gender'', ''itemInSession'', ''lastName'',
             ''length'', ''level'', ''location'', ''method'', ''page'', ''registration'',
             ''sessionId'', ''song'', ''status'', ''ts'', ''userId''],
            [''Faithless'', ''Logged In'', ''Ava'', ''F'', ''4'', ''Robinson'', ''495.3073'',
             ''free'', ''New Haven'', ''PUT'', ''NextSong'', ''1.54'', ''338'', ''Music Matters'',
             ''200'', ''1541'', ''50'']])]
         [header_row,
          [''Faithless'', ''Ava'', ''F'', ''4'', ''Robinson'', ''495.3073'', ''free'',
           ''New Haven'', ''338'', ''Music Matters'', ''50'']] fresh_world) = None
   \<and> resources_after (trace (snd (pipeline plain_env
         [(''event_data/2018-11-08-events.csv'',
           [[''artist'', ''auth'', ''firstName'', ''gender'', ''itemInSession'', ''lastName'',
             ''length'', ''level'', ''location'', ''method'', ''page'', ''registration'',
             ''sessionId'', ''song'', ''status'', ''ts'', ''userId''],
            [''Faithless'', ''Logged In'', ''Ava'', ''F'', ''4'', ''Robinson'', ''495.3073'',
             ''free'', ''New Haven'', ''PUT'', ''NextSong'', ''1.54'', ''338'', ''Music Matters'',
             ''200'', ''1541'', ''50'']])]
         [header_row,
          [''Faithless'', ''Ava'', ''F'', ''4'', ''Robinson'', ''495.3073'', ''free'',
           ''New Haven'', ''338'', ''Music Matters'', ''50'']] fresh_world))) = (0, 0, 1)
   \<and> (\<exists>rest. trace (snd (pipeline plain_env
         [(''event_data/2018-11-08-events.csv'',
           [[''artist'', ''auth'', ''firstName'', ''gender'', ''itemInSession'', ''lastName'',
             ''length'', ''level'', ''location'', ''method'', ''page'', ''registration'',
             ''sessionId'', ''song'', ''status'', ''ts'', ''userId''],
            [''Faithless'', ''Logged In'', ''Ava'', ''F'', ''4'', ''Robinson'', ''495.3073'',
             ''free'', ''New Haven'', ''PUT'', ''NextSong'', ''1.54'', ''338'', ''Music Matters'',
             ''200'', ''1541'', ''50'']])]
         [header_row,
          [''Faithless'', ''Ava'', ''F'', ''4'', ''Robinson'', ''495.3073'', ''free'',
           ''New Haven'', ''338'', ''Music Matters'', ''50'']] fresh_world))
         = [FileOpen ''event_data/2018-11-08-events.csv'',
            FileClose ''event_data/2018-11-08-events.csv'',
            FileOpen new_datafile, FileClose new_datafile,
            FileOpen new_datafile, FileClose new_datafile, ClusterConnect] @ rest)"
proof -
  have t: "trace (fresh_world :: (int \<times> nat) world) = []"
    by (simp add: fresh_world_def)
  have x: "fst (extract_cell
         [(''event_data/2018-11-08-events.csv'',
           [[''artist'', ''auth'', ''firstName'', ''gender'', ''itemInSession'', ''lastName'',
             ''length'', ''level'', ''location'', ''method'', ''page'', ''registration'',
             ''sessionId'', ''song'', ''status'', ''ts'', ''userId''],
            [''Faithless'', ''Logged In'', ''Ava'', ''F'', ''4'', ''Robinson'', ''495.3073'',
             ''free'', ''New Haven'', ''PUT'', ''NextSong'', ''1.54'', ''338'', ''Music Matters'',
             ''200'', ''1541'', ''50'']])] (fresh_world :: (int \<times> nat) world)) = None"
    by (rule extract_cell_ok) simp_all
  have u: "cluster_up plain_env" by (simp add: plain_env_def)
  show ?thesis
    using plain_pipeline_completes [of fresh_world] x u
      one_file_one_connection [OF t, of plain_env
        "[(''event_data/2018-11-08-events.csv'',
           [[''artist'', ''auth'', ''firstName'', ''gender'', ''itemInSession'', ''lastName'',
             ''length'', ''level'', ''location'', ''method'', ''page'', ''registration'',
             ''sessionId'', ''song'', ''status'', ''ts'', ''userId''],
            [''Faithless'', ''Logged In'', ''Ava'', ''F'', ''4'', ''Robinson'', ''495.3073'',
             ''free'', ''New Haven'', ''PUT'', ''NextSong'', ''1.54'', ''338'', ''Music Matters'',
             ''200'', ''1541'', ''50'']])]"
        "[header_row,
          [''Faithless'', ''Ava'', ''F'', ''4'', ''Robinson'', ''495.3073'', ''free'',
           ''New Haven'', ''338'', ''Music Matters'', ''50'']]"]
    by (simp del: run_cells.simps)
qed

text \<open>
  The claim as stated fails: the connection is not opened at the start of the run. In
  this run six file events come before it.
\<close>

theorem one_file_one_connection_counterexample:
  "take 7 (trace (snd (pipeline plain_env
         [(''event_data/2018-11-08-events.csv'',
           [[''artist'', ''auth'', ''firstName'', ''gender'', ''itemInSession'', ''lastName'',
             ''length'', ''level'', ''location'', ''method'', ''page'', ''registration'',
             ''sessionId'', ''song'', ''status'', ''ts'', ''userId''],
            [''Faithless'', ''Logged In'', ''Ava'', ''F'', ''4'', ''Robinson'', ''495.3073'',
             ''free'', ''New Haven'', ''PUT'', ''NextSong'', ''1.54'', ''338'', ''Music Matters'',
             ''200'', ''1541'', ''50'']])]
         [header_row,
          [''Faithless'', ''Ava'', ''F'', ''4'', ''Robinson'', ''495.3073'', ''free'',
           ''New Haven'', ''338'', ''Music Matters'', ''50'']] fresh_world)))
     = [FileOpen ''event_data/2018-11-08-events.csv'',
        FileClose ''event_data/2018-11-08-events.csv'',
        FileOpen new_datafile, FileClose new_datafile,
        FileOpen new_datafile, FileClose new_datafile, ClusterConnect]"
proof -
  have s: "settled (0, 0, 0) (fresh_world :: (int \<times> nat) world)"
    by (simp add: settled_def resources_after_def within_limits_def fresh_world_def)
  have t: "trace (fresh_world :: (int \<times> nat) world) = []"
    by (simp add: fresh_world_def)
  have x: "fst (extract_cell
         [(''event_data/2018-11-08-events.csv'',
           [[''artist'', ''auth'', ''firstName'', ''gender'', ''itemInSession'', ''lastName'',
             ''length'', ''level'', ''location'', ''method'', ''page'', ''registration'',
             ''sessionId'', ''song'', ''status'', ''ts'', ''userId''],
            [''Faithless'', ''Logged In'', ''Ava'', ''F'', ''4'', ''Robinson'', ''495.3073'',
             ''free'', ''New Haven'', ''PUT'', ''NextSong'', ''1.54'', ''338'', ''Music Matters'',
             ''200'', ''1541'', ''50'']])] (fresh_world :: (int \<times> nat) world)) = None"
    by (rule extract_cell_ok) simp_all
  have u: "cluster_up plain_env" by (simp add: plain_env_def)
  from pipeline_settled(3) [OF s x u, where flat="[header_row,
          [''Faithless'', ''Ava'', ''F'', ''4'', ''Robinson'', ''495.3073'', ''free'',
           ''New Haven'', ''338'', ''Music Matters'', ''50'']]"]
  show ?thesis
    by (auto simp: t simp del: run_cells.simps)
qed

end
